theory Spec2Isabelle
  imports Main "HOL-Library.Multiset" "HOL-Library.Sublist"
begin

section \<open>The SQLite backend of yans: article numbering and retrieval\<close>

text \<open>
  This theory embeds \<^verbatim>\<open>internal/backend/sqlite/sqlite.go\<close>. Every method of
  \<^verbatim>\<open>SQLiteBackend\<close> is one SQL statement, or a short sequence of them, run against
  the store behind \<^verbatim>\<open>sb.db\<close>. The store is modelled as a record of its four tables,
  each a list of rows in the order of insertion; an SQL statement becomes a list
  comprehension over the tables, and a Go method becomes a function that takes the store
  and returns its result together with the store it leaves behind.

  Go's \<^verbatim>\<open>int\<close> and \<^verbatim>\<open>int64\<close> and the numbers of the store are modelled as
  \<open>int\<close>. A number of the store from \<open>-2^63\<close> to \<open>2^63 - 1\<close> is an SQLite INTEGER;
  any other number of the model stands for the REAL of that value. The code only compares
  these numbers; the arithmetic is the store's: \<^verbatim>\<open>max(article_number)+1\<close>
  (\<open>sql_plus_one\<close> below, which leaves the INTEGERs at \<open>2^63 - 1\<close>) and the choice of
  the rowid of an inserted article (\<open>next_rowid\<close>).

  What the model fixes where the store or the language leaves it open:
  \<^item> a query without \<^verbatim>\<open>ORDER BY\<close> returns its rows in the order of the table, and
    \<^verbatim>\<open>Get\<close> on such a query takes the first of them;
  \<^item> \<^verbatim>\<open>ORDER BY\<close> is a stable sort, so rows with equal keys keep the order of the
    table; the theorems below say nothing about the order of such rows;
  \<^item> the methods written \<^verbatim>\<open>return v, sb.db.Get(&v, ...)\<close> return the value that
    \<^verbatim>\<open>Get\<close> stored in \<^verbatim>\<open>v\<close>: the code relies on \<^verbatim>\<open>v\<close> being read after the
    call, which the Go specification does not promise and the gc compiler does.

  What the model leaves out of a Go result:
  \<^item> a method returns a pair of a value and an error; the model returns the error alone
    (\<open>Inl\<close>) when there is one, and not the zero or half-filled value beside it;
  \<^item> a nil slice and an empty slice are both the empty list.
\<close>

subsection \<open>Errors and results\<close>

text \<open>
  The errors the methods return: \<open>ErrNoRows\<close> is \<^verbatim>\<open>sql.ErrNoRows\<close>, what
  \<^verbatim>\<open>Get\<close> returns when the query has no row; \<open>NoSuchNewsgroup\<close> is
  \<^verbatim>\<open>fmt.Errorf("no such newsgroup")\<close>; \<open>StoreError\<close> is any other failure of a
  statement (busy, closed, constraint, I/O); \<open>UnmarshalError\<close> is a failure of
  \<^verbatim>\<open>json.Unmarshal\<close>; \<open>ScanError\<close> is a failure to scan a column into its
  destination (NULL into a Go \<^verbatim>\<open>string\<close>).
\<close>

datatype error = ErrNoRows | NoSuchNewsgroup | StoreError | UnmarshalError | ScanError

text \<open>
  A Go call either panics or returns. Only \<^verbatim>\<open>SaveArticle\<close> can panic (the method call
  on a nil \<^verbatim>\<open>sql.Result\<close>).
\<close>

datatype 'a go_result = Panic | Return 'a

text \<open>\<^verbatim>\<open>sql.Result\<close>, of which the code reads \<^verbatim>\<open>LastInsertId()\<close> only.\<close>

datatype sql_result = SqlResult (LastInsertId: int)

subsection \<open>Rows, structs and the store\<close>

text \<open>
  Modelled from the spec: the schema (\<^verbatim>\<open>migrations/*.sql\<close>) and the structs of
  \<^verbatim>\<open>internal/models\<close> are not part of the source given. The tables and columns are
  those the statements name; \<open>created_at\<close> is the time the store stamps on a row when it
  is inserted, kept in seconds since 1970 (see \<open>datetime_unixepoch\<close>);
  \<open>thread\<close> is nullable (\<^verbatim>\<open>articles.thread IS NULL\<close> is queried). The struct fields
  are those the methods read and write.
\<close>

record Group =
  GroupID :: int
  GroupName :: string
  GroupCreatedAt :: int

record article_row =
  col_id :: int
  col_header :: string
  col_body :: string
  col_thread :: "string option"
  col_created_at :: int

record atg_row =
  article_id :: int
  article_number :: int
  group_id :: int

record attachment_row =
  att_article_id :: int
  att_content_type :: string
  att_attachment_id :: string

record Attachment =
  ContentType :: string
  FileName :: string

text \<open>
  \<^verbatim>\<open>models.Article\<close>. The parsed header has the type \<open>'h\<close> of whatever
  \<^verbatim>\<open>json.Unmarshal\<close> builds; \<open>None\<close> is the zero value of the field before parsing.
\<close>

record 'h Article =
  ID :: int
  HeaderRaw :: string
  Header :: "'h option"
  Body :: string
  Thread :: "string option"
  CreatedAt :: int
  ArticleNumber :: int
  Attachments :: "Attachment list"

text \<open>
  The store. \<open>faults\<close> is the store's schedule of failures: the next statement issued
  fails with \<open>StoreError\<close> iff the head of the list is \<open>True\<close>, and consumes the head;
  an empty list is a store that does not fail any more.
\<close>

record store =
  groups :: "Group list"
  articles :: "article_row list"
  articles_to_groups :: "atg_row list"
  attachments_articles_mapping :: "attachment_row list"
  faults :: "bool list"

subsection \<open>The statement interface: Exec, Get, Select\<close>

definition next_fault :: "store \<Rightarrow> bool \<times> store" where
  "next_fault s = (case faults s of [] \<Rightarrow> (False, s) | f # fs \<Rightarrow> (f, s\<lparr>faults := fs\<rparr>))"

text \<open>
  \<^verbatim>\<open>db.Exec\<close> returns \<^verbatim>\<open>(Result, error)\<close>: a nil result with the error when the
  statement fails, the result and a nil error otherwise. The statement is given by its
  effect: the rowid of the row it inserts and the store afterwards.
\<close>

definition Exec :: "store \<Rightarrow> (store \<Rightarrow> int \<times> store) \<Rightarrow> (sql_result option \<times> error option) \<times> store" where
  "Exec s stmt =
     (case next_fault s of
        (True, s1) \<Rightarrow> ((None, Some StoreError), s1)
      | (False, s1) \<Rightarrow> (case stmt s1 of (rowid, s2) \<Rightarrow> ((Some (SqlResult rowid), None), s2)))"

text \<open>
  \<^verbatim>\<open>db.Get\<close> scans the first row of the query, and returns \<^verbatim>\<open>sql.ErrNoRows\<close> when
  there is none; \<^verbatim>\<open>db.Select\<close> scans all rows. Both are given the rows of the query
  as the store evaluates it.
\<close>

definition Get :: "store \<Rightarrow> 'a list \<Rightarrow> (error + 'a) \<times> store" where
  "Get s rows =
     (case next_fault s of
        (True, s1) \<Rightarrow> (Inl StoreError, s1)
      | (False, s1) \<Rightarrow> (case rows of [] \<Rightarrow> (Inl ErrNoRows, s1) | r # _ \<Rightarrow> (Inr r, s1)))"

definition Select :: "store \<Rightarrow> 'a list \<Rightarrow> (error + 'a list) \<times> store" where
  "Select s rows =
     (case next_fault s of
        (True, s1) \<Rightarrow> (Inl StoreError, s1)
      | (False, s1) \<Rightarrow> (Inr rows, s1))"

subsection \<open>SQL building blocks\<close>

text \<open>The aggregates \<^verbatim>\<open>max\<close> and \<^verbatim>\<open>min\<close>: NULL (\<open>None\<close>) over no rows.\<close>

fun sql_max :: "int list \<Rightarrow> int option" where
  "sql_max [] = None"
| "sql_max (n # ns) = Some (fold max ns n)"

fun sql_min :: "int list \<Rightarrow> int option" where
  "sql_min [] = None"
| "sql_min (n # ns) = Some (fold min ns n)"

text \<open>
  \<^verbatim>\<open>x + 1\<close> as the store computes it. On an INTEGER below \<open>2^63 - 1\<close> the sum is
  the next INTEGER. At \<open>2^63 - 1\<close> the addition overflows and the store computes in
  floating point: the sum is the REAL \<^verbatim>\<open>9223372036854775808.0\<close>, that is \<open>2^63\<close>. On
  a REAL of that size or beyond, adding 1 rounds back to the same REAL.
\<close>

definition sql_plus_one :: "int \<Rightarrow> int" where
  "sql_plus_one n = (if - (2 ^ 63) \<le> n \<and> n < 2 ^ 63 then n + 1 else n)"

text \<open>
  \<^verbatim>\<open>datetime(?, 'unixepoch')\<close> on an integer: the time of that many seconds since
  1970, and NULL when it lies outside the dates the store handles (Julian day 0 to the
  end of the year 9999). Times are kept as seconds; the text the store compares is in the
  order of the seconds for the times of the years 0000 to 9999, which \<open>created_at\<close> holds.
\<close>

definition datetime_unixepoch :: "int \<Rightarrow> int option" where
  "datetime_unixepoch t = (if - 210866760000 \<le> t \<and> t < 253402300800 then Some t else None)"

text \<open>\<^verbatim>\<open>x > y\<close> in a WHERE clause, with \<open>y\<close> possibly NULL: NULL selects no row.\<close>

definition sql_gt :: "int \<Rightarrow> int option \<Rightarrow> bool" where
  "sql_gt x y = (case y of None \<Rightarrow> False | Some v \<Rightarrow> x > v)"

text \<open>\<^verbatim>\<open>COALESCE(x, d)\<close> and \<^verbatim>\<open>ifnull(x, d)\<close>.\<close>

definition coalesce :: "'a option \<Rightarrow> 'a \<Rightarrow> 'a" where
  "coalesce x d = (case x of None \<Rightarrow> d | Some v \<Rightarrow> v)"

text \<open>\<^verbatim>\<open>x = y\<close> in a WHERE clause: a comparison with NULL never selects the row.\<close>

definition sql_eq :: "'a option \<Rightarrow> 'a option \<Rightarrow> bool" where
  "sql_eq x y = (case (x, y) of (Some u, Some v) \<Rightarrow> u = v | _ \<Rightarrow> False)"

text \<open>
  \<^verbatim>\<open>articles INNER JOIN articles_to_groups atg on atg.article_id = articles.id\<close>.
\<close>

definition joined :: "store \<Rightarrow> (article_row \<times> atg_row) list" where
  "joined s = [(a, m). a \<leftarrow> articles s, m \<leftarrow> articles_to_groups s, article_id m = col_id a]"

text \<open>
  \<^verbatim>\<open>SELECT article_number FROM articles_to_groups WHERE group_id = ?\<close> over a table.
\<close>

definition numbers_in :: "atg_row list \<Rightarrow> int \<Rightarrow> int list" where
  "numbers_in tbl gid = [article_number m. m \<leftarrow> tbl, group_id m = gid]"

text \<open>
  \<^verbatim>\<open>SELECT article_number FROM articles_to_groups WHERE article_id = ?\<close>: the lookup the
  read methods use to fill \<^verbatim>\<open>ArticleNumber\<close>. It names no group.
\<close>

definition numbers_of_article :: "atg_row list \<Rightarrow> int \<Rightarrow> int list" where
  "numbers_of_article tbl aid = [article_number m. m \<leftarrow> tbl, article_id m = aid]"

text \<open>Scanning a row of \<^verbatim>\<open>articles.*\<close> into a fresh \<^verbatim>\<open>models.Article\<close>.\<close>

definition scan_article :: "article_row \<Rightarrow> 'h Article" where
  "scan_article r =
     \<lparr>ID = col_id r, HeaderRaw = col_header r, Header = None, Body = col_body r,
      Thread = col_thread r, CreatedAt = col_created_at r, ArticleNumber = 0, Attachments = []\<rparr>"

definition scan_attachment :: "attachment_row \<Rightarrow> Attachment" where
  "scan_attachment r = \<lparr>ContentType = att_content_type r, FileName = att_attachment_id r\<rparr>"

subsection \<open>strings.TrimSpace\<close>

text \<open>
  Go strings are byte strings. \<^verbatim>\<open>strings.TrimSpace\<close> removes the leading and the
  trailing white space, as \<^verbatim>\<open>unicode.IsSpace\<close> defines it, read as UTF-8: the code
  points U+0009 to U+000D, U+0020, U+0085, U+00A0, U+1680, U+2000 to U+200A, U+2028,
  U+2029, U+202F, U+205F and U+3000. \<open>white_space\<close> lists their encodings.
\<close>

definition white_space :: "string list" where
  "white_space =
     [[CHR 0x09], [CHR 0x0A], [CHR 0x0B], [CHR 0x0C], [CHR 0x0D], [CHR 0x20],
      [CHR 0xC2, CHR 0x85], [CHR 0xC2, CHR 0xA0], [CHR 0xE1, CHR 0x9A, CHR 0x80],
      [CHR 0xE2, CHR 0x80, CHR 0x80], [CHR 0xE2, CHR 0x80, CHR 0x81],
      [CHR 0xE2, CHR 0x80, CHR 0x82], [CHR 0xE2, CHR 0x80, CHR 0x83],
      [CHR 0xE2, CHR 0x80, CHR 0x84], [CHR 0xE2, CHR 0x80, CHR 0x85],
      [CHR 0xE2, CHR 0x80, CHR 0x86], [CHR 0xE2, CHR 0x80, CHR 0x87],
      [CHR 0xE2, CHR 0x80, CHR 0x88], [CHR 0xE2, CHR 0x80, CHR 0x89],
      [CHR 0xE2, CHR 0x80, CHR 0x8A], [CHR 0xE2, CHR 0x80, CHR 0xA8],
      [CHR 0xE2, CHR 0x80, CHR 0xA9], [CHR 0xE2, CHR 0x80, CHR 0xAF],
      [CHR 0xE2, CHR 0x81, CHR 0x9F], [CHR 0xE3, CHR 0x80, CHR 0x80]]"

text \<open>The rest of \<open>s\<close> after the first of the encodings \<open>ps\<close> that \<open>s\<close> starts with.\<close>

fun strip_one :: "string list \<Rightarrow> string \<Rightarrow> string option" where
  "strip_one [] s = None"
| "strip_one (p # ps) s =
     (if p \<noteq> [] \<and> take (length p) s = p then Some (drop (length p) s) else strip_one ps s)"

lemma strip_one_shorter: "strip_one ps s = Some s' \<Longrightarrow> length s' < length s"
proof (induction ps)
  case Nil
  then show ?case by simp
next
  case (Cons p ps)
  show ?case
  proof (cases "p \<noteq> [] \<and> take (length p) s = p")
    case True
    then have "length (take (length p) s) = length p" by simp
    then have "length p \<le> length s" by simp
    moreover have "0 < length p" using True by simp
    moreover have "s' = drop (length p) s" using Cons.prems True by simp
    ultimately show ?thesis by (cases p) auto
  next
    case False
    then show ?thesis using Cons by auto
  qed
qed

function trim_left :: "string list \<Rightarrow> string \<Rightarrow> string" where
  "trim_left ps s = (case strip_one ps s of None \<Rightarrow> s | Some s' \<Rightarrow> trim_left ps s')"
  by pat_completeness auto
termination
  by (relation "measure (\<lambda>(ps, s). length s)") (auto dest: strip_one_shorter)

declare trim_left.simps [simp del]

definition TrimSpace :: "string \<Rightarrow> string" where
  "TrimSpace s = rev (trim_left (map rev white_space) (rev (trim_left white_space s)))"

subsection \<open>The collaborators taken as parameters\<close>

text \<open>
  Two functions of the header serializer are not code of this file. They are parameters
  of the methods that use them:
  \<^item> \<open>um\<close> is \<^verbatim>\<open>json.Unmarshal\<close> on a raw header: \<open>None\<close> when it fails;
  \<^item> \<open>mid\<close> is the store's \<^verbatim>\<open>json_extract(header, '$.Message-Id[0]')\<close>: \<open>None\<close> is
    NULL.
  The time the store stamps on an inserted article is the parameter \<open>now\<close> of
  \<open>SaveArticle\<close>.
\<close>

subsection \<open>Counts, watermarks, groups\<close>

definition GetArticlesCount :: "store \<Rightarrow> Group \<Rightarrow> (error + int) \<times> store" where
  "GetArticlesCount s g =
     Get s [int (length [m \<leftarrow> articles_to_groups s. group_id m = GroupID g])]"

definition GetGroupHighWaterMark :: "store \<Rightarrow> Group \<Rightarrow> (error + int) \<times> store" where
  "GetGroupHighWaterMark s g =
     Get s [coalesce (sql_max (numbers_in (articles_to_groups s) (GroupID g))) 0]"

definition GetGroupLowWaterMark :: "store \<Rightarrow> Group \<Rightarrow> (error + int) \<times> store" where
  "GetGroupLowWaterMark s g =
     Get s [coalesce (sql_min (numbers_in (articles_to_groups s) (GroupID g))) 0]"

definition GetGroup :: "store \<Rightarrow> string \<Rightarrow> (error + Group) \<times> store" where
  "GetGroup s groupName = Get s [g \<leftarrow> groups s. GroupName g = groupName]"

subsection \<open>SaveArticle\<close>

text \<open>
  The rowid of an inserted article (\<open>id\<close> is the table's integer primary key: the code
  uses \<^verbatim>\<open>LastInsertId()\<close> as the article's id): 1 in an empty table, and one more than
  the greatest id of the table as long as that is below \<open>2^63 - 1\<close>. At \<open>2^63 - 1\<close>
  the store looks for an unused positive id at random; the model takes the least one. (A
  table declared AUTOINCREMENT fails the insert there instead: that is a failure of the
  statement, a \<open>True\<close> in the schedule of failures.) The other two tables are only
  appended to.
\<close>

definition next_rowid :: "int list \<Rightarrow> int" where
  "next_rowid ids =
     (case sql_max ids of
        None \<Rightarrow> 1
      | Some m \<Rightarrow>
          if m < 2 ^ 63 - 1 then m + 1
          else hd [i \<leftarrow> [1 .. int (length ids) + 1]. i \<notin> set ids])"

definition insert_article :: "int \<Rightarrow> 'h Article \<Rightarrow> store \<Rightarrow> int \<times> store" where
  "insert_article now a s =
     (let rowid = next_rowid (map col_id (articles s))
      in (rowid,
          s\<lparr>articles := articles s @
               [\<lparr>col_id = rowid, col_header = HeaderRaw a, col_body = Body a,
                 col_thread = Thread a, col_created_at = now\<rparr>]\<rparr>))"

text \<open>
  \<^verbatim>\<open>INSERT INTO articles_to_groups (article_id, article_number, group_id) VALUES (?,
  (SELECT ifnull(max(article_number)+1, 1) FROM articles_to_groups WHERE group_id = ?), ?)\<close>:
  first the scalar subquery, then the statement.
\<close>

definition next_article_number :: "atg_row list \<Rightarrow> int \<Rightarrow> int" where
  "next_article_number tbl gid =
     coalesce (map_option sql_plus_one (sql_max (numbers_in tbl gid))) 1"

definition insert_membership :: "int \<Rightarrow> int \<Rightarrow> store \<Rightarrow> int \<times> store" where
  "insert_membership articleID v s =
     (int (length (articles_to_groups s)) + 1,
      s\<lparr>articles_to_groups := articles_to_groups s @
           [\<lparr>article_id = articleID,
             article_number = next_article_number (articles_to_groups s) v,
             group_id = v\<rparr>]\<rparr>)"

definition insert_attachment :: "int \<Rightarrow> Attachment \<Rightarrow> store \<Rightarrow> int \<times> store" where
  "insert_attachment articleID v s =
     (int (length (attachments_articles_mapping s)) + 1,
      s\<lparr>attachments_articles_mapping := attachments_articles_mapping s @
           [\<lparr>att_article_id = articleID, att_content_type = ContentType v,
             att_attachment_id = FileName v\<rparr>]\<rparr>)"

text \<open>
  The first loop: every name is trimmed and resolved, in order; \<^verbatim>\<open>sql.ErrNoRows\<close>
  becomes "no such newsgroup", any other error is returned as it is.
\<close>

fun resolve_groups :: "store \<Rightarrow> string list \<Rightarrow> (error + int list) \<times> store" where
  "resolve_groups s [] = (Inr [], s)"
| "resolve_groups s (v # vs) =
     (case GetGroup s (TrimSpace v) of
        (Inl e, s1) \<Rightarrow> (Inl (if e = ErrNoRows then NoSuchNewsgroup else e), s1)
      | (Inr g, s1) \<Rightarrow>
          (case resolve_groups s1 vs of
             (Inl e, s2) \<Rightarrow> (Inl e, s2)
           | (Inr groupIDs, s2) \<Rightarrow> (Inr (GroupID g # groupIDs), s2)))"

text \<open>The second and the third loop: one insert each, stopping at the first error.\<close>

fun insert_memberships :: "store \<Rightarrow> int \<Rightarrow> int list \<Rightarrow> error option \<times> store" where
  "insert_memberships s articleID [] = (None, s)"
| "insert_memberships s articleID (v # vs) =
     (case Exec s (insert_membership articleID v) of
        ((_, Some e), s1) \<Rightarrow> (Some e, s1)
      | ((_, None), s1) \<Rightarrow> insert_memberships s1 articleID vs)"

fun insert_attachments :: "store \<Rightarrow> int \<Rightarrow> Attachment list \<Rightarrow> error option \<times> store" where
  "insert_attachments s articleID [] = (None, s)"
| "insert_attachments s articleID (v # vs) =
     (case Exec s (insert_attachment articleID v) of
        ((_, Some e), s1) \<Rightarrow> (Some e, s1)
      | ((_, None), s1) \<Rightarrow> insert_attachments s1 articleID vs)"

text \<open>
  \<^verbatim>\<open>SaveArticle\<close>. The error of the first \<^verbatim>\<open>Exec\<close> is overwritten by that of
  \<^verbatim>\<open>res.LastInsertId()\<close> before it is read, and the call on a nil \<^verbatim>\<open>res\<close>
  panics. On a result of the SQLite driver \<^verbatim>\<open>LastInsertId()\<close> returns no error.
  The last \<^verbatim>\<open>return err\<close> returns the error of the last insert, which is nil there.
\<close>

definition SaveArticle :: "store \<Rightarrow> int \<Rightarrow> 'h Article \<Rightarrow> string list \<Rightarrow> error option go_result \<times> store" where
  "SaveArticle s now a names =
     (case Exec s (insert_article now a) of
        ((None, _), s1) \<Rightarrow> (Panic, s1)
      | ((Some res, _), s1) \<Rightarrow>
          (let articleID = LastInsertId res in
           case resolve_groups s1 names of
             (Inl e, s2) \<Rightarrow> (Return (Some e), s2)
           | (Inr groupIDs, s2) \<Rightarrow>
               (case insert_memberships s2 articleID groupIDs of
                  (Some e, s3) \<Rightarrow> (Return (Some e), s3)
                | (None, s3) \<Rightarrow>
                    (case insert_attachments s3 articleID (Attachments a) of
                       (r, s4) \<Rightarrow> (Return r, s4)))))"

subsection \<open>Reading articles\<close>

definition GetArticleByNumber :: "(string \<Rightarrow> 'h option) \<Rightarrow> store \<Rightarrow> Group \<Rightarrow> int \<Rightarrow> (error + 'h Article) \<times> store" where
  "GetArticleByNumber um s g num =
     (case Get s [scan_article a. (a, m) \<leftarrow> joined s, article_number m = num \<and> group_id m = GroupID g] of
        (Inl e, s1) \<Rightarrow> (Inl e, s1)
      | (Inr a, s1) \<Rightarrow>
          (case Select s1 [scan_attachment r. r \<leftarrow> attachments_articles_mapping s1, att_article_id r = ID a] of
             (Inl e, s2) \<Rightarrow> (Inl e, s2)
           | (Inr atts, s2) \<Rightarrow>
               (case um (HeaderRaw a) of
                  None \<Rightarrow> (Inl UnmarshalError, s2)
                | Some h \<Rightarrow> (Inr (a\<lparr>ArticleNumber := num, Attachments := atts, Header := Some h\<rparr>), s2))))"

definition GetArticleNumbers :: "store \<Rightarrow> Group \<Rightarrow> int \<Rightarrow> int \<Rightarrow> (error + int list) \<times> store" where
  "GetArticleNumbers s g low high =
     (if high = 0 \<and> low = 0 then
        Select s [article_number m. m \<leftarrow> articles_to_groups s, group_id m = GroupID g]
      else if low = - 1 \<and> high \<noteq> 0 then
        Select s [article_number m. m \<leftarrow> articles_to_groups s,
                    group_id m = GroupID g \<and> article_number m = high]
      else if low \<noteq> 0 \<and> high = - 1 then
        Select s [article_number m. m \<leftarrow> articles_to_groups s,
                    group_id m = GroupID g \<and> article_number m > low]
      else if low = - 1 \<and> high = - 1 then
        (Inr [], s)
      else
        Select s [article_number m. m \<leftarrow> articles_to_groups s,
                    group_id m = GroupID g \<and> article_number m > low \<and> article_number m < high])"

text \<open>
  The second statement of the next three methods, and what follows it: the number is
  read by the article's id alone, then the header is parsed.
\<close>

definition fill_number_and_header :: "(string \<Rightarrow> 'h option) \<Rightarrow> store \<Rightarrow> 'h Article \<Rightarrow> (error + 'h Article) \<times> store" where
  "fill_number_and_header um s a =
     (case Get s (numbers_of_article (articles_to_groups s) (ID a)) of
        (Inl e, s1) \<Rightarrow> (Inl e, s1)
      | (Inr n, s1) \<Rightarrow>
          (case um (HeaderRaw a) of
             None \<Rightarrow> (Inl UnmarshalError, s1)
           | Some h \<Rightarrow> (Inr (a\<lparr>ArticleNumber := n, Header := Some h\<rparr>), s1)))"



text \<open>The loop of \<^verbatim>\<open>GetArticlesByRange\<close> over the selected articles.\<close>

fun fill_all :: "(string \<Rightarrow> 'h option) \<Rightarrow> store \<Rightarrow> 'h Article list \<Rightarrow> (error + 'h Article list) \<times> store" where
  "fill_all um s [] = (Inr [], s)"
| "fill_all um s (a # as) =
     (case fill_number_and_header um s a of
        (Inl e, s1) \<Rightarrow> (Inl e, s1)
      | (Inr a', s1) \<Rightarrow>
          (case fill_all um s1 as of
             (Inl e, s2) \<Rightarrow> (Inl e, s2)
           | (Inr as', s2) \<Rightarrow> (Inr (a' # as'), s2)))"

definition GetArticlesByRange :: "(string \<Rightarrow> 'h option) \<Rightarrow> store \<Rightarrow> Group \<Rightarrow> int \<Rightarrow> int \<Rightarrow> (error + 'h Article list) \<times> store" where
  "GetArticlesByRange um s g low high =
     (case Select s (map (scan_article \<circ> fst)
                      (sort_key (\<lambda>(x, m). article_number m)
                         [(x, m) \<leftarrow> joined s. article_number m \<ge> low \<and> article_number m \<le> high
                                               \<and> group_id m = GroupID g])) of
        (Inl e, s1) \<Rightarrow> (Inl e, s1)
      | (Inr as, s1) \<Rightarrow> fill_all um s1 as)"

definition GetNewArticlesSince :: "(string \<Rightarrow> string option) \<Rightarrow> store \<Rightarrow> int \<Rightarrow> (error + string list) \<times> store" where
  "GetNewArticlesSince mid s timestamp =
     (case Select s [mid (col_header a). a \<leftarrow> articles s,
                       sql_gt (col_created_at a) (datetime_unixepoch timestamp)] of
        (Inl e, s1) \<Rightarrow> (Inl e, s1)
      | (Inr cols, s1) \<Rightarrow>
          (case those cols of None \<Rightarrow> (Inl ScanError, s1) | Some articleIds \<Rightarrow> (Inr articleIds, s1)))"

subsection \<open>Threads\<close>

text \<open>
  The scalar subquery of \<^verbatim>\<open>GetThread\<close>: the header of the article numbered
  \<open>threadNum\<close> in the group, NULL when there is none; \<^verbatim>\<open>json_extract\<close> of NULL is
  NULL.
\<close>

definition root_message_id :: "(string \<Rightarrow> string option) \<Rightarrow> store \<Rightarrow> Group \<Rightarrow> int \<Rightarrow> string option" where
  "root_message_id mid s g threadNum =
     (case [col_header x. (x, m) \<leftarrow> joined s, group_id m = GroupID g \<and> article_number m = threadNum] of
        [] \<Rightarrow> None
      | h # _ \<Rightarrow> mid h)"

definition GetThread :: "(string \<Rightarrow> string option) \<Rightarrow> store \<Rightarrow> Group \<Rightarrow> int \<Rightarrow> (error + int list) \<times> store" where
  "GetThread mid s g threadNum =
     Select s (map (article_number \<circ> snd)
                (sort_key (col_created_at \<circ> fst)
                   [(x, m) \<leftarrow> joined s. group_id m = GroupID g
                                         \<and> sql_eq (col_thread x) (root_message_id mid s g threadNum)]))"

subsection \<open>The numbering rule, in the words of the specification\<close>

text \<open>
  \<open>next = max(existing article numbers in that group) + 1\<close>, defaulting to 1 if the
  group has no articles.
\<close>

definition spec_next :: "int list \<Rightarrow> int" where
  "spec_next ns = (if ns = [] then 1 else Max (set ns) + 1)"

text \<open>
  \<open>allocated tbl rows\<close>: the membership rows \<open>rows\<close>, appended to the table \<open>tbl\<close> one
  after the other, each carry the next number of their group at the moment they are
  appended.
\<close>

fun allocated :: "atg_row list \<Rightarrow> atg_row list \<Rightarrow> bool" where
  "allocated tbl [] = True"
| "allocated tbl (r # rs) =
     (article_number r = spec_next (numbers_in tbl (group_id r)) \<and> allocated (tbl @ [r]) rs)"

text \<open>
  \<open>stored tbl rows\<close>: the same with the number the subquery of the store computes. It
  is what the code does; \<open>allocated\<close> is what the specification asks for.
\<close>

fun stored :: "atg_row list \<Rightarrow> atg_row list \<Rightarrow> bool" where
  "stored tbl [] = True"
| "stored tbl (r # rs) =
     (article_number r = next_article_number tbl (group_id r) \<and> stored (tbl @ [r]) rs)"

text \<open>The numbers that are SQLite INTEGERs.\<close>

definition sql_integer :: "int \<Rightarrow> bool" where
  "sql_integer n \<longleftrightarrow> - (2 ^ 63) \<le> n \<and> n < 2 ^ 63"

text \<open>
  The articles of a group, each with its membership row, and the articles that carry the
  number \<open>n\<close> in the group.
\<close>

definition in_group :: "store \<Rightarrow> Group \<Rightarrow> (article_row \<times> atg_row) list" where
  "in_group s g = [(x, m) \<leftarrow> joined s. group_id m = GroupID g]"

definition numbered :: "store \<Rightarrow> Group \<Rightarrow> int \<Rightarrow> article_row list" where
  "numbered s g n = [x. (x, m) \<leftarrow> in_group s g, article_number m = n]"


subsection \<open>A store to run the methods on\<close>

text \<open>
  Three groups, the third without articles, and four articles as four calls of
  \<open>SaveArticle\<close> leave them (\<open>ex_store_saved\<close> below): the second article is
  posted to two groups, the third and the fourth answer the first. In the examples the
  parsed header is the raw header (\<open>um = Some\<close>) and the raw header is the message
  identifier (\<open>mid = Some\<close>).
\<close>

definition ex_A :: Group where
  "ex_A = \<lparr>GroupID = 1, GroupName = ''alt.test'', GroupCreatedAt = 0\<rparr>"

definition ex_B :: Group where
  "ex_B = \<lparr>GroupID = 2, GroupName = ''comp.lang.go'', GroupCreatedAt = 0\<rparr>"

definition ex_C :: Group where
  "ex_C = \<lparr>GroupID = 3, GroupName = ''misc.empty'', GroupCreatedAt = 0\<rparr>"

definition ex_fresh :: store where
  "ex_fresh = \<lparr>groups = [ex_A, ex_B, ex_C], articles = [], articles_to_groups = [],
                attachments_articles_mapping = [], faults = []\<rparr>"

definition ex_article :: "string \<Rightarrow> string option \<Rightarrow> string Article" where
  "ex_article h t =
     \<lparr>ID = 0, HeaderRaw = h, Header = None, Body = ''text'', Thread = t, CreatedAt = 0,
      ArticleNumber = 0, Attachments = []\<rparr>"

definition ex_store :: store where
  "ex_store =
     \<lparr>groups = [ex_A, ex_B, ex_C],
      articles =
        [\<lparr>col_id = 1, col_header = ''<m1@x>'', col_body = ''text'', col_thread = None,
           col_created_at = 10\<rparr>,
         \<lparr>col_id = 2, col_header = ''<m2@x>'', col_body = ''text'', col_thread = None,
           col_created_at = 20\<rparr>,
         \<lparr>col_id = 3, col_header = ''<m3@x>'', col_body = ''text'',
           col_thread = Some ''<m1@x>'', col_created_at = 30\<rparr>,
         \<lparr>col_id = 4, col_header = ''<m4@x>'', col_body = ''text'',
           col_thread = Some ''<m1@x>'', col_created_at = 40\<rparr>],
      articles_to_groups =
        [\<lparr>article_id = 1, article_number = 1, group_id = 2\<rparr>,
         \<lparr>article_id = 2, article_number = 1, group_id = 1\<rparr>,
         \<lparr>article_id = 2, article_number = 2, group_id = 2\<rparr>,
         \<lparr>article_id = 3, article_number = 3, group_id = 2\<rparr>,
         \<lparr>article_id = 4, article_number = 4, group_id = 2\<rparr>],
      attachments_articles_mapping = [],
      faults = []\<rparr>"

text \<open>A group name with a tab in front and a no-break space and a line feed behind.\<close>

definition ex_padded :: string where
  "ex_padded = [CHR 0x09] @ ''alt.test'' @ [CHR 0xC2, CHR 0xA0, CHR 0x0A]"

text \<open>A row of \<open>articles\<close> and an article as the read methods return it.\<close>

definition ex_row :: "int \<Rightarrow> string \<Rightarrow> string option \<Rightarrow> int \<Rightarrow> article_row" where
  "ex_row i h t c = \<lparr>col_id = i, col_header = h, col_body = ''text'', col_thread = t, col_created_at = c\<rparr>"

definition ex_read :: "int \<Rightarrow> string \<Rightarrow> string option \<Rightarrow> int \<Rightarrow> int \<Rightarrow> string Article" where
  "ex_read i h t c n =
     \<lparr>ID = i, HeaderRaw = h, Header = Some h, Body = ''text'', Thread = t, CreatedAt = c,
      ArticleNumber = n, Attachments = []\<rparr>"

section \<open>Basic facts\<close>

subsection \<open>A store that does not fail\<close>

lemma next_fault_quiet: "faults s = [] \<Longrightarrow> next_fault s = (False, s)"
  by (simp add: next_fault_def)

lemma Get_quiet:
  "faults s = [] \<Longrightarrow> Get s rows = (case rows of [] \<Rightarrow> (Inl ErrNoRows, s) | r # _ \<Rightarrow> (Inr r, s))"
  by (simp add: Get_def next_fault_quiet)

lemma Select_quiet: "faults s = [] \<Longrightarrow> Select s rows = (Inr rows, s)"
  by (simp add: Select_def next_fault_quiet)

lemma Exec_quiet:
  "faults s = [] \<Longrightarrow> Exec s stmt = ((Some (SqlResult (fst (stmt s))), None), snd (stmt s))"
  by (simp add: Exec_def next_fault_quiet split: prod.splits)

subsection \<open>The aggregates\<close>

lemma sql_max_Max: "ns \<noteq> [] \<Longrightarrow> sql_max ns = Some (Max (set ns))"
proof (cases ns)
  case Nil
  assume "ns \<noteq> []"
  with Nil show ?thesis by simp
next
  case (Cons n ms)
  then show ?thesis using Max.set_eq_fold [of n ms] by simp
qed

lemma sql_min_Min: "ns \<noteq> [] \<Longrightarrow> sql_min ns = Some (Min (set ns))"
proof (cases ns)
  case Nil
  assume "ns \<noteq> []"
  with Nil show ?thesis by simp
next
  case (Cons n ms)
  then show ?thesis using Min.set_eq_fold [of n ms] by simp
qed

lemma length_numbers_in:
  "length (numbers_in tbl gid) = length [m \<leftarrow> tbl. group_id m = gid]"
  by (induction tbl) (simp_all add: numbers_in_def)

subsection \<open>What TrimSpace removes\<close>

text \<open>
  \<open>TrimSpace v\<close> is \<open>v\<close> without a run of white space in front and a run of white
  space behind, and it neither starts nor ends with white space.
\<close>

lemma take_prefix_iff: "take (length p) s = p \<longleftrightarrow> prefix p s"
  by (metis append_eq_conv_conj prefix_def)

lemma strip_one_None: "strip_one ps s = None \<longleftrightarrow> (\<forall>p\<in>set ps. p = [] \<or> \<not> prefix p s)"
  by (induction ps) (auto simp: take_prefix_iff)

lemma strip_one_Some: "strip_one ps s = Some s' \<Longrightarrow> \<exists>p\<in>set ps. p \<noteq> [] \<and> s = p @ s'"
proof (induction ps)
  case Nil
  then show ?case by simp
next
  case (Cons p ps)
  show ?case
  proof (cases "p \<noteq> [] \<and> take (length p) s = p")
    case True
    with Cons.prems have "s' = drop (length p) s" by simp
    with True have "s = p @ s'" by (metis append_take_drop_id)
    with True show ?thesis by auto
  next
    case False
    with Cons show ?thesis by auto
  qed
qed

lemma trim_left_prefix: "\<exists>ws. set ws \<subseteq> set ps \<and> s = concat ws @ trim_left ps s"
proof (induction ps s rule: trim_left.induct)
  case (1 ps s)
  show ?case
  proof (cases "strip_one ps s")
    case None
    then have "trim_left ps s = s" by (simp add: trim_left.simps)
    then have "set [] \<subseteq> set ps \<and> s = concat [] @ trim_left ps s" by simp
    then show ?thesis by blast
  next
    case (Some s')
    then have t: "trim_left ps s = trim_left ps s'" by (simp add: trim_left.simps)
    from strip_one_Some [OF Some] obtain p where p: "p \<in> set ps" "s = p @ s'" by auto
    from "1.IH" [OF Some] obtain ws where ws: "set ws \<subseteq> set ps" "s' = concat ws @ trim_left ps s'"
      by auto
    have "set (p # ws) \<subseteq> set ps \<and> s = concat (p # ws) @ trim_left ps s"
      using p ws t by simp
    then show ?thesis by blast
  qed
qed

lemma trim_left_done: "strip_one ps (trim_left ps s) = None"
proof (induction ps s rule: trim_left.induct)
  case (1 ps s)
  show ?case
  proof (cases "strip_one ps s")
    case None
    then show ?thesis by (simp add: trim_left.simps)
  next
    case (Some s')
    with "1.IH" [OF Some] show ?thesis by (simp add: trim_left.simps)
  qed
qed

lemma TrimSpace_trims:
  "(\<exists>ws ws'. set ws \<subseteq> set white_space \<and> set ws' \<subseteq> set white_space
        \<and> v = concat ws @ TrimSpace v @ concat ws')
   \<and> (\<forall>p\<in>set white_space. \<not> prefix p (TrimSpace v) \<and> \<not> suffix p (TrimSpace v))"
proof -
  let ?t = "trim_left white_space v"
  let ?u = "trim_left (map rev white_space) (rev ?t)"
  have ne: "\<forall>p\<in>set white_space. p \<noteq> []" by (simp add: white_space_def)
  from trim_left_prefix [of white_space v] obtain ws where
    ws: "set ws \<subseteq> set white_space" "v = concat ws @ ?t" by blast
  from trim_left_prefix [of "map rev white_space" "rev ?t"] obtain rs where
    rs: "set rs \<subseteq> set (map rev white_space)" "rev ?t = concat rs @ ?u" by blast
  have T: "TrimSpace v = rev ?u" by (simp add: TrimSpace_def)
  from rs(2) have "?t = rev ?u @ rev (concat rs)"
    by (metis rev_append rev_rev_ident)
  then have t: "?t = TrimSpace v @ concat (map rev (rev rs))"
    by (simp add: T rev_concat)
  have sub: "set (map rev (rev rs)) \<subseteq> set white_space"
    using rs(1) by auto
  have decomp: "\<exists>ws ws'. set ws \<subseteq> set white_space \<and> set ws' \<subseteq> set white_space
        \<and> v = concat ws @ TrimSpace v @ concat ws'"
    using ws t sub by metis
  have right: "\<forall>p\<in>set white_space. \<not> suffix p (TrimSpace v)"
  proof
    fix p assume p: "p \<in> set white_space"
    have "strip_one (map rev white_space) ?u = None" by (rule trim_left_done)
    with p ne have "\<not> prefix (rev p) ?u" by (auto simp: strip_one_None)
    then show "\<not> suffix p (TrimSpace v)" by (simp add: T suffix_to_prefix)
  qed
  have left: "\<forall>p\<in>set white_space. \<not> prefix p (TrimSpace v)"
  proof
    fix p assume p: "p \<in> set white_space"
    have "strip_one white_space ?t = None" by (rule trim_left_done)
    with p ne have "\<not> prefix p ?t" by (auto simp: strip_one_None)
    moreover have "prefix (TrimSpace v) ?t" using t by (metis prefixI)
    ultimately show "\<not> prefix p (TrimSpace v)" by (meson prefix_order.trans)
  qed
  from decomp left right show ?thesis by blast
qed

subsection \<open>The example store\<close>

lemma ex_store_saved:
  "snd (SaveArticle
     (snd (SaveArticle
        (snd (SaveArticle
           (snd (SaveArticle ex_fresh 10 (ex_article ''<m1@x>'' None) ['' comp.lang.go '']))
           20 (ex_article ''<m2@x>'' None) [''alt.test'', ''comp.lang.go'']))
        30 (ex_article ''<m3@x>'' (Some ''<m1@x>'')) [''comp.lang.go'']))
     40 (ex_article ''<m4@x>'' (Some ''<m1@x>'')) [''comp.lang.go'']) = ex_store"
  by code_simp

lemma ex_quiet: "faults ex_store = []"
  by (simp add: ex_store_def)

lemma ex_numbers_B: "numbers_in (articles_to_groups ex_store) (GroupID ex_B) = [1, 2, 3, 4]"
  by (simp add: ex_store_def ex_B_def numbers_in_def)

lemma ex_numbers_C: "numbers_in (articles_to_groups ex_store) (GroupID ex_C) = []"
  by (simp add: ex_store_def ex_C_def numbers_in_def)

section \<open>SaveArticle\<close>

subsection \<open>What a statement leaves of the store\<close>

lemma next_fault_frame: "next_fault s = (f, s') \<Longrightarrow> \<exists>fs. s' = s\<lparr>faults := fs\<rparr>"
  by (cases "faults s") (auto simp: next_fault_def intro: exI [of _ "[]"])

lemma Get_frame: "Get s rows = (r, s') \<Longrightarrow> \<exists>fs. s' = s\<lparr>faults := fs\<rparr>"
  by (auto simp: Get_def split: prod.splits bool.splits list.splits dest: next_fault_frame)


lemma resolve_groups_frame: "resolve_groups s names = (r, s') \<Longrightarrow> \<exists>fs. s' = s\<lparr>faults := fs\<rparr>"
proof (induction names arbitrary: s r s')
  case Nil
  then show ?case by (auto intro: exI [of _ "faults s"])
next
  case (Cons v vs)
  obtain r1 s1 where g: "GetGroup s (TrimSpace v) = (r1, s1)"
    by (cases "GetGroup s (TrimSpace v)") auto
  then obtain fs1 where s1: "s1 = s\<lparr>faults := fs1\<rparr>"
    unfolding GetGroup_def by (auto dest: Get_frame)
  show ?case
  proof (cases r1)
    case (Inl e)
    with Cons.prems g s1 show ?thesis by auto
  next
    case (Inr grp)
    obtain r2 s2 where rec: "resolve_groups s1 vs = (r2, s2)"
      by (cases "resolve_groups s1 vs") auto
    from Cons.IH [OF rec] obtain fs2 where "s2 = s1\<lparr>faults := fs2\<rparr>" by auto
    with s1 have "s2 = s\<lparr>faults := fs2\<rparr>" by simp
    moreover have "s' = s2"
      using Cons.prems g Inr rec by (auto split: sum.splits)
    ultimately show ?thesis by auto
  qed
qed

lemma next_article_number_cases:
  "next_article_number tbl gid =
     (if numbers_in tbl gid = [] then 1 else sql_plus_one (Max (set (numbers_in tbl gid))))"
  by (simp add: next_article_number_def coalesce_def sql_max_Max)

lemma next_article_number_spec:
  assumes "\<forall>n\<in>set (numbers_in tbl gid). sql_integer n"
  shows "next_article_number tbl gid = spec_next (numbers_in tbl gid)"
proof (cases "numbers_in tbl gid = []")
  case True
  then show ?thesis by (simp add: next_article_number_cases spec_next_def)
next
  case False
  then have "Max (set (numbers_in tbl gid)) \<in> set (numbers_in tbl gid)"
    by (intro Max_in) simp_all
  with assms have "sql_integer (Max (set (numbers_in tbl gid)))" by blast
  with False show ?thesis
    by (simp add: next_article_number_cases spec_next_def sql_plus_one_def sql_integer_def)
qed

lemma next_article_number_positive:
  assumes "\<forall>n\<in>set (numbers_in tbl gid). 1 \<le> n"
  shows "1 \<le> next_article_number tbl gid"
proof (cases "numbers_in tbl gid = []")
  case True
  then show ?thesis by (simp add: next_article_number_cases)
next
  case False
  then have "Max (set (numbers_in tbl gid)) \<in> set (numbers_in tbl gid)"
    by (intro Max_in) simp_all
  with assms have "1 \<le> Max (set (numbers_in tbl gid))" by blast
  with False show ?thesis
    by (simp add: next_article_number_cases sql_plus_one_def)
qed

lemma Exec_cases:
  assumes "Exec s stmt = ((res, err), s')"
  obtains (failed) fs where "res = None" "err = Some StoreError" "s' = s\<lparr>faults := fs\<rparr>"
        | (ran) fs where "res = Some (SqlResult (fst (stmt (s\<lparr>faults := fs\<rparr>))))" "err = None"
                          "s' = snd (stmt (s\<lparr>faults := fs\<rparr>))"
proof -
  obtain f s1 where nf: "next_fault s = (f, s1)" by (cases "next_fault s") auto
  then obtain fs where s1: "s1 = s\<lparr>faults := fs\<rparr>" by (auto dest: next_fault_frame)
  show thesis
  proof (cases f)
    case True
    with assms nf s1 show ?thesis by (intro failed [of fs]) (auto simp: Exec_def)
  next
    case False
    with assms nf s1 show ?thesis
      by (intro ran [of fs]) (auto simp: Exec_def split: prod.splits)
  qed
qed

lemma insert_membership_effect:
  "snd (insert_membership aid v s) =
     s\<lparr>articles_to_groups := articles_to_groups s @
          [\<lparr>article_id = aid, article_number = next_article_number (articles_to_groups s) v,
            group_id = v\<rparr>]\<rparr>"
  by (simp add: insert_membership_def)

lemma insert_memberships_effect:
  "insert_memberships s aid gids = (r, s') \<Longrightarrow>
   \<exists>rows fs. s' = s\<lparr>articles_to_groups := articles_to_groups s @ rows, faults := fs\<rparr>
            \<and> stored (articles_to_groups s) rows"
proof (induction gids arbitrary: s r s')
  case Nil
  then have "s' = s\<lparr>articles_to_groups := articles_to_groups s @ [], faults := faults s\<rparr>"
    by simp
  then show ?case by (metis stored.simps(1))
next
  case (Cons v vs)
  obtain res err s1 where ex: "Exec s (insert_membership aid v) = ((res, err), s1)"
    by (metis prod.exhaust)
  from ex show ?case
  proof (cases rule: Exec_cases)
    case (failed fs)
    with Cons.prems ex
    have "s' = s\<lparr>articles_to_groups := articles_to_groups s @ [], faults := fs\<rparr>"
      by simp
    then show ?thesis by (metis stored.simps(1))
  next
    case (ran fs)
    let ?row = "\<lparr>article_id = aid,
                 article_number = next_article_number (articles_to_groups s) v, group_id = v\<rparr>"
    have s1: "s1 = s\<lparr>articles_to_groups := articles_to_groups s @ [?row], faults := fs\<rparr>"
      using ran by (simp add: insert_membership_effect)
    have rec: "insert_memberships s1 aid vs = (r, s')"
      using Cons.prems ex ran by simp
    from Cons.IH [OF rec] obtain rows fs' where
      s': "s' = s1\<lparr>articles_to_groups := articles_to_groups s1 @ rows, faults := fs'\<rparr>"
      and al: "stored (articles_to_groups s1) rows" by blast
    have "s' = s\<lparr>articles_to_groups := articles_to_groups s @ (?row # rows), faults := fs'\<rparr>"
      using s' s1 by simp
    moreover have "stored (articles_to_groups s) (?row # rows)"
      using al s1 by simp
    ultimately show ?thesis by blast
  qed
qed

lemma insert_attachments_effect:
  "insert_attachments s aid atts = (r, s') \<Longrightarrow>
   \<exists>rows fs. s' = s\<lparr>attachments_articles_mapping := attachments_articles_mapping s @ rows,
                     faults := fs\<rparr>"
proof (induction atts arbitrary: s r s')
  case Nil
  then have "s' = s\<lparr>attachments_articles_mapping := attachments_articles_mapping s @ [],
                    faults := faults s\<rparr>"
    by simp
  then show ?case by blast
next
  case (Cons v vs)
  obtain res err s1 where ex: "Exec s (insert_attachment aid v) = ((res, err), s1)"
    by (metis prod.exhaust)
  from ex show ?case
  proof (cases rule: Exec_cases)
    case (failed fs)
    with Cons.prems ex
    have "s' = s\<lparr>attachments_articles_mapping := attachments_articles_mapping s @ [],
                  faults := fs\<rparr>"
      by simp
    then show ?thesis by blast
  next
    case (ran fs)
    let ?row = "\<lparr>att_article_id = aid, att_content_type = ContentType v,
                 att_attachment_id = FileName v\<rparr>"
    have s1: "s1 = s\<lparr>attachments_articles_mapping := attachments_articles_mapping s @ [?row],
                       faults := fs\<rparr>"
      using ran by (simp add: insert_attachment_def)
    have rec: "insert_attachments s1 aid vs = (r, s')"
      using Cons.prems ex ran by simp
    from Cons.IH [OF rec] obtain rows fs' where
      "s' = s1\<lparr>attachments_articles_mapping := attachments_articles_mapping s1 @ rows,
                faults := fs'\<rparr>" by blast
    with s1 have
      "s' = s\<lparr>attachments_articles_mapping := attachments_articles_mapping s @ (?row # rows),
               faults := fs'\<rparr>"
      by simp
    then show ?thesis by blast
  qed
qed

lemma numbers_in_append:
  "numbers_in (tbl @ rows) gid = numbers_in tbl gid @ numbers_in rows gid"
  by (simp add: numbers_in_def)

lemma numbers_in_single:
  "numbers_in [r] gid = (if group_id r = gid then [article_number r] else [])"
  by (simp add: numbers_in_def)

lemma spec_next_greater: "n \<in> set ns \<Longrightarrow> n < spec_next ns"
proof -
  assume n: "n \<in> set ns"
  then have "ns \<noteq> []" by auto
  moreover have "n \<le> Max (set ns)" using n by simp
  ultimately show ?thesis by (simp add: spec_next_def)
qed

lemma allocated_increasing:
  "allocated tbl rows \<Longrightarrow> sorted_wrt (<) (numbers_in tbl gid) \<Longrightarrow>
   sorted_wrt (<) (numbers_in (tbl @ rows) gid)"
proof (induction rows arbitrary: tbl)
  case Nil
  then show ?case by simp
next
  case (Cons r rs)
  have "sorted_wrt (<) (numbers_in (tbl @ [r]) gid)"
    using Cons.prems
    by (auto simp: numbers_in_append numbers_in_single sorted_wrt_append dest: spec_next_greater)
  with Cons.IH [of "tbl @ [r]"] Cons.prems show ?case by simp
qed

lemma stored_positive:
  "stored tbl rows \<Longrightarrow> \<forall>m\<in>set tbl. 1 \<le> article_number m \<Longrightarrow>
   \<forall>m\<in>set (tbl @ rows). 1 \<le> article_number m"
proof (induction rows arbitrary: tbl)
  case Nil
  then show ?case by simp
next
  case (Cons r rs)
  have "\<forall>n\<in>set (numbers_in tbl (group_id r)). 1 \<le> n"
    using Cons.prems(2) by (auto simp: numbers_in_def)
  then have "1 \<le> article_number r"
    using Cons.prems(1) by (simp add: next_article_number_positive)
  then have "\<forall>m\<in>set (tbl @ [r]). 1 \<le> article_number m"
    using Cons.prems(2) by auto
  with Cons.IH [of "tbl @ [r]"] Cons.prems(1) show ?case by simp
qed

text \<open>
  As long as the numbers stay INTEGERs, the store numbers the rows as the specification
  asks.
\<close>

lemma stored_allocated:
  "stored tbl rows \<Longrightarrow> \<forall>m\<in>set (tbl @ rows). sql_integer (article_number m) \<Longrightarrow>
   allocated tbl rows"
proof (induction rows arbitrary: tbl)
  case Nil
  then show ?case by simp
next
  case (Cons r rs)
  have "\<forall>n\<in>set (numbers_in tbl (group_id r)). sql_integer n"
    using Cons.prems(2) by (auto simp: numbers_in_def)
  then have "article_number r = spec_next (numbers_in tbl (group_id r))"
    using Cons.prems(1) by (simp add: next_article_number_spec)
  moreover have "allocated (tbl @ [r]) rs"
    using Cons.IH [of "tbl @ [r]"] Cons.prems by simp
  ultimately show ?case by simp
qed

lemma insert_article_effect:
  "snd (insert_article now a s) =
     s\<lparr>articles := articles s @
          [\<lparr>col_id = next_rowid (map col_id (articles s)), col_header = HeaderRaw a,
            col_body = Body a, col_thread = Thread a, col_created_at = now\<rparr>]\<rparr>"
  "fst (insert_article now a s) = next_rowid (map col_id (articles s))"
  by (simp_all add: insert_article_def Let_def)

lemma next_rowid_spec:
  "\<forall>i\<in>set ids. i < 2 ^ 63 - 1 \<Longrightarrow> next_rowid ids = spec_next ids"
proof (cases "ids = []")
  case True
  then show ?thesis by (simp add: next_rowid_def spec_next_def)
next
  case False
  assume b: "\<forall>i\<in>set ids. i < 2 ^ 63 - 1"
  from False have "Max (set ids) \<in> set ids" by (intro Max_in) simp_all
  with b have "Max (set ids) < 2 ^ 63 - 1" by blast
  with False show ?thesis by (simp add: next_rowid_def spec_next_def sql_max_Max)
qed

lemma SaveArticle_effect:
  assumes "SaveArticle s now a names = (r, s')"
  shows "groups s' = groups s
       \<and> (\<exists>rows. articles_to_groups s' = articles_to_groups s @ rows
                 \<and> stored (articles_to_groups s) rows)
       \<and> (\<exists>atts. attachments_articles_mapping s' = attachments_articles_mapping s @ atts)
       \<and> articles s' = articles s @
           (if r = Panic then []
            else [\<lparr>col_id = next_rowid (map col_id (articles s)), col_header = HeaderRaw a,
                   col_body = Body a, col_thread = Thread a, col_created_at = now\<rparr>])"
proof -
  obtain res err s1 where ex: "Exec s (insert_article now a) = ((res, err), s1)"
    by (metis prod.exhaust)
  from ex show ?thesis
  proof (cases rule: Exec_cases)
    case (failed fs)
    with assms ex have "r = Panic" "s' = s\<lparr>faults := fs\<rparr>"
      by (simp_all add: SaveArticle_def)
    then show ?thesis by simp
  next
    case (ran fs)
    let ?row = "\<lparr>col_id = next_rowid (map col_id (articles s)), col_header = HeaderRaw a,
                 col_body = Body a, col_thread = Thread a, col_created_at = now\<rparr>"
    have s1: "s1 = s\<lparr>articles := articles s @ [?row], faults := fs\<rparr>"
      using ran by (simp add: insert_article_effect)
    obtain r2 s2 where rg: "resolve_groups s1 names = (r2, s2)"
      by (metis prod.exhaust)
    then obtain fs2 where s2: "s2 = s1\<lparr>faults := fs2\<rparr>"
      by (auto dest: resolve_groups_frame)
    show ?thesis
    proof (cases r2)
      case (Inl e)
      with assms ex ran rg have "r = Return (Some e)" "s' = s2"
        by (simp_all add: SaveArticle_def)
      with s1 s2 show ?thesis by simp
    next
      case (Inr groupIDs)
      obtain r3 s3 where im: "insert_memberships s2 (LastInsertId (the res)) groupIDs = (r3, s3)"
        by (metis prod.exhaust)
      from insert_memberships_effect [OF im] obtain rows fs3 where
        s3: "s3 = s2\<lparr>articles_to_groups := articles_to_groups s2 @ rows, faults := fs3\<rparr>"
        and al: "stored (articles_to_groups s2) rows" by blast
      obtain r4 s4 where ia: "insert_attachments s3 (LastInsertId (the res)) (Attachments a) = (r4, s4)"
        by (metis prod.exhaust)
      from insert_attachments_effect [OF ia] obtain atts fs4 where
        s4: "s4 = s3\<lparr>attachments_articles_mapping := attachments_articles_mapping s3 @ atts,
                      faults := fs4\<rparr>" by blast
      have "r \<noteq> Panic \<and> (s' = s3 \<or> s' = s4)"
        using assms ex ran rg Inr im ia
        by (auto simp: SaveArticle_def split: option.splits)
      with s1 s2 s3 s4 al show ?thesis by auto
    qed
  qed
qed

lemma SaveArticle_numbers_positive:
  assumes "SaveArticle s now a names = (r, s')"
    and "\<forall>m\<in>set (articles_to_groups s). 1 \<le> article_number m"
  shows "\<forall>m\<in>set (articles_to_groups s'). 1 \<le> article_number m"
proof -
  from SaveArticle_effect [OF assms(1)] obtain rows where
    "articles_to_groups s' = articles_to_groups s @ rows" "stored (articles_to_groups s) rows"
    by blast
  with stored_positive [of "articles_to_groups s" rows] assms(2) show ?thesis by simp
qed

lemma GetGroup_quiet:
  "faults s = [] \<Longrightarrow>
   GetGroup s name =
     (case [g \<leftarrow> groups s. GroupName g = name] of [] \<Rightarrow> (Inl ErrNoRows, s) | g # _ \<Rightarrow> (Inr g, s))"
  by (simp add: GetGroup_def Get_quiet)

lemma resolve_groups_quiet:
  assumes "faults s = []"
  shows "resolve_groups s names =
           (if \<exists>v\<in>set names. [g \<leftarrow> groups s. GroupName g = TrimSpace v] = []
            then Inl NoSuchNewsgroup
            else Inr (map (\<lambda>v. GroupID (hd [g \<leftarrow> groups s. GroupName g = TrimSpace v])) names),
            s)"
  using assms
  by (induction names) (auto simp: GetGroup_quiet split: list.splits)

lemma insert_memberships_quiet:
  "faults s = [] \<Longrightarrow>
   insert_memberships s aid gids = (None, fold (\<lambda>v t. snd (insert_membership aid v t)) gids s)"
proof (induction gids arbitrary: s)
  case Nil
  then show ?case by simp
next
  case (Cons v vs)
  have "faults (snd (insert_membership aid v s)) = []"
    using Cons.prems by (simp add: insert_membership_def)
  from Cons.IH [OF this] Cons.prems show ?case
    by (simp add: Exec_quiet)
qed

lemma insert_attachments_quiet:
  "faults s = [] \<Longrightarrow>
   insert_attachments s aid atts = (None, fold (\<lambda>v t. snd (insert_attachment aid v t)) atts s)"
proof (induction atts arbitrary: s)
  case Nil
  then show ?case by simp
next
  case (Cons v vs)
  have "faults (snd (insert_attachment aid v s)) = []"
    using Cons.prems by (simp add: insert_attachment_def)
  from Cons.IH [OF this] Cons.prems show ?case
    by (simp add: Exec_quiet)
qed

lemma fold_insert_membership_faults:
  "faults (fold (\<lambda>v t. snd (insert_membership aid v t)) gids s) = faults s"
  by (induction gids arbitrary: s) (simp_all add: insert_membership_def)

lemma fold_insert_attachment_frame:
  "faults (fold (\<lambda>v t. snd (insert_attachment aid v t)) atts s) = faults s"
  "groups (fold (\<lambda>v t. snd (insert_attachment aid v t)) atts s) = groups s"
  "articles (fold (\<lambda>v t. snd (insert_attachment aid v t)) atts s) = articles s"
  "articles_to_groups (fold (\<lambda>v t. snd (insert_attachment aid v t)) atts s) = articles_to_groups s"
  by (induction atts arbitrary: s) (simp_all add: insert_attachment_def)

lemma SaveArticle_quiet:
  assumes "faults s = []"
  shows "SaveArticle s now a names =
           (if \<exists>v\<in>set names. [g \<leftarrow> groups s. GroupName g = TrimSpace v] = []
            then (Return (Some NoSuchNewsgroup), snd (insert_article now a s))
            else (Return None,
                  fold (\<lambda>v t. snd (insert_attachment (fst (insert_article now a s)) v t))
                    (Attachments a)
                    (fold (\<lambda>v t. snd (insert_membership (fst (insert_article now a s)) v t))
                       (map (\<lambda>v. GroupID (hd [g \<leftarrow> groups s. GroupName g = TrimSpace v])) names)
                       (snd (insert_article now a s)))))"
proof -
  let ?s1 = "snd (insert_article now a s)"
  have q1: "faults ?s1 = []" and g1: "groups ?s1 = groups s"
    using assms by (simp_all add: insert_article_def Let_def)
  have ex: "Exec s (insert_article now a) = ((Some (SqlResult (fst (insert_article now a s))), None), ?s1)"
    using assms by (rule Exec_quiet)
  show ?thesis
  proof (cases "\<exists>v\<in>set names. [g \<leftarrow> groups s. GroupName g = TrimSpace v] = []")
    case True
    then show ?thesis
      using resolve_groups_quiet [OF q1, of names] ex g1
      by (simp add: SaveArticle_def Let_def)
  next
    case False
    let ?ids = "map (\<lambda>v. GroupID (hd [g \<leftarrow> groups s. GroupName g = TrimSpace v])) names"
    let ?aid = "fst (insert_article now a s)"
    let ?s3 = "fold (\<lambda>v t. snd (insert_membership ?aid v t)) ?ids ?s1"
    have rg: "resolve_groups ?s1 names = (Inr ?ids, ?s1)"
      using resolve_groups_quiet [OF q1, of names] False g1 by simp
    have im: "insert_memberships ?s1 ?aid ?ids = (None, ?s3)"
      using q1 by (rule insert_memberships_quiet)
    have "faults ?s3 = []"
      using q1 by (simp add: fold_insert_membership_faults)
    then have ia: "insert_attachments ?s3 ?aid (Attachments a) =
        (None, fold (\<lambda>v t. snd (insert_attachment ?aid v t)) (Attachments a) ?s3)"
      by (rule insert_attachments_quiet)
    show ?thesis
      using False ex rg im ia by (simp add: SaveArticle_def Let_def)
  qed
qed

lemma SaveArticle_numbers_allocated:
  assumes "SaveArticle s now a names = (r, s')"
    and "\<forall>m\<in>set (articles_to_groups s'). sql_integer (article_number m)"
  shows "\<exists>rows. articles_to_groups s' = articles_to_groups s @ rows
             \<and> allocated (articles_to_groups s) rows"
proof -
  from SaveArticle_effect [OF assms(1)] obtain rows where
    rows: "articles_to_groups s' = articles_to_groups s @ rows"
    and "stored (articles_to_groups s) rows"
    by blast
  with assms(2) have "allocated (articles_to_groups s) rows"
    by (intro stored_allocated) simp_all
  with rows show ?thesis by blast
qed

lemma save_into_one_group:
  assumes q: "faults s = []"
    and g: "[x \<leftarrow> groups s. GroupName x = TrimSpace nm] = g # gs"
    and sv: "SaveArticle s now a [nm] = (r, s')"
  shows "r = Return None \<and> faults s' = [] \<and> groups s' = groups s
       \<and> numbers_in (articles_to_groups s') (GroupID g) =
           numbers_in (articles_to_groups s) (GroupID g)
             @ [next_article_number (articles_to_groups s) (GroupID g)]"
proof -
  let ?s1 = "snd (insert_article now a s)"
  let ?aid = "fst (insert_article now a s)"
  have s1: "faults ?s1 = []" "groups ?s1 = groups s" "articles_to_groups ?s1 = articles_to_groups s"
    using q by (simp_all add: insert_article_def Let_def)
  have "SaveArticle s now a [nm] =
      (Return None,
       fold (\<lambda>v t. snd (insert_attachment ?aid v t)) (Attachments a)
         (snd (insert_membership ?aid (GroupID g) ?s1)))"
    using SaveArticle_quiet [OF q, of now a "[nm]"] g by simp
  with sv have r: "r = Return None"
    and s': "s' = fold (\<lambda>v t. snd (insert_attachment ?aid v t)) (Attachments a)
         (snd (insert_membership ?aid (GroupID g) ?s1))" by simp_all
  show ?thesis
    using r s1 unfolding s'
    by (simp add: fold_insert_attachment_frame insert_membership_effect numbers_in_append
        numbers_in_single)
qed

text \<open>
  Claim C1, within the INTEGERs of the store. Whatever the store does, when the article
  numbers of the store after a call of \<open>SaveArticle\<close> are all INTEGERs (from \<open>-2^63\<close>
  to \<open>2^63 - 1\<close>: the addition of the store has not overflowed), the membership rows
  the call appended each carry the number \<open>max(existing numbers of the group) + 1\<close>, or 1
  when the group has no membership at that moment; so the numbers of a group that were
  strictly increasing in the order of insertion remain so, and remain distinct. Three
  articles saved one after the other into a group without memberships, on a store that
  does not fail, get the numbers 1, 2, 3.
\<close>

theorem SaveArticle_numbering:
  "(\<forall>r s'. SaveArticle s now a names = (r, s')
        \<and> (\<forall>m\<in>set (articles_to_groups s'). sql_integer (article_number m)) \<longrightarrow>
      (\<exists>rows. articles_to_groups s' = articles_to_groups s @ rows
             \<and> allocated (articles_to_groups s) rows)
      \<and> (\<forall>gid. sorted_wrt (<) (numbers_in (articles_to_groups s) gid)
             \<longrightarrow> sorted_wrt (<) (numbers_in (articles_to_groups s') gid)
               \<and> distinct (numbers_in (articles_to_groups s') gid)))
   \<and> (faults s = [] \<and> [x \<leftarrow> groups s. GroupName x = TrimSpace nm] = g # gs
        \<and> numbers_in (articles_to_groups s) (GroupID g) = []
      \<longrightarrow> (\<forall>r1 s1 r2 s2 r3 s3.
             SaveArticle s t1 a1 [nm] = (r1, s1) \<and> SaveArticle s1 t2 a2 [nm] = (r2, s2)
             \<and> SaveArticle s2 t3 a3 [nm] = (r3, s3)
           \<longrightarrow> r1 = Return None \<and> r2 = Return None \<and> r3 = Return None
               \<and> numbers_in (articles_to_groups s1) (GroupID g) = [1]
               \<and> numbers_in (articles_to_groups s2) (GroupID g) = [1, 2]
               \<and> numbers_in (articles_to_groups s3) (GroupID g) = [1, 2, 3]))"
proof (intro conjI allI impI)
  fix r s'
  assume h: "SaveArticle s now a names = (r, s')
        \<and> (\<forall>m\<in>set (articles_to_groups s'). sql_integer (article_number m))"
  from SaveArticle_numbers_allocated [of s now a names r s'] h
  show "\<exists>rows. articles_to_groups s' = articles_to_groups s @ rows
             \<and> allocated (articles_to_groups s) rows" by blast
next
  fix r s' gid
  assume h: "SaveArticle s now a names = (r, s')
        \<and> (\<forall>m\<in>set (articles_to_groups s'). sql_integer (article_number m))"
    and so: "sorted_wrt (<) (numbers_in (articles_to_groups s) gid)"
  from SaveArticle_numbers_allocated [of s now a names r s'] h obtain rows where
    "articles_to_groups s' = articles_to_groups s @ rows" "allocated (articles_to_groups s) rows"
    by blast
  with so show "sorted_wrt (<) (numbers_in (articles_to_groups s') gid)"
    by (simp add: allocated_increasing)
  then show "distinct (numbers_in (articles_to_groups s') gid)"
    using strict_sorted_iff by blast
next
  fix r1 s1 r2 s2 r3 s3
  assume pre: "faults s = [] \<and> [x \<leftarrow> groups s. GroupName x = TrimSpace nm] = g # gs
        \<and> numbers_in (articles_to_groups s) (GroupID g) = []"
    and saves: "SaveArticle s t1 a1 [nm] = (r1, s1) \<and> SaveArticle s1 t2 a2 [nm] = (r2, s2)
             \<and> SaveArticle s2 t3 a3 [nm] = (r3, s3)"
  have one: "r1 = Return None \<and> faults s1 = [] \<and> groups s1 = groups s
       \<and> numbers_in (articles_to_groups s1) (GroupID g) = [1]"
    using save_into_one_group [of s nm g gs t1 a1 r1 s1] pre saves
    by (simp add: next_article_number_cases)
  have two: "r2 = Return None \<and> faults s2 = [] \<and> groups s2 = groups s
       \<and> numbers_in (articles_to_groups s2) (GroupID g) = [1, 2]"
    using save_into_one_group [of s1 nm g gs t2 a2 r2 s2] pre saves one
    by (simp add: next_article_number_cases sql_plus_one_def)
  have three: "r3 = Return None
       \<and> numbers_in (articles_to_groups s3) (GroupID g) = [1, 2, 3]"
    using save_into_one_group [of s2 nm g gs t3 a3 r3 s3] pre saves two
    by (simp add: next_article_number_cases sql_plus_one_def)
  from one two three
  show "r1 = Return None" "r2 = Return None" "r3 = Return None"
    "numbers_in (articles_to_groups s1) (GroupID g) = [1]"
    "numbers_in (articles_to_groups s2) (GroupID g) = [1, 2]"
    "numbers_in (articles_to_groups s3) (GroupID g) = [1, 2, 3]"
    by simp_all
qed

theorem SaveArticle_numbering_witness:
  "fst (SaveArticle ex_fresh 10 (ex_article ''<m1@x>'' None) ['' comp.lang.go '']) = Return None
   \<and> numbers_in (articles_to_groups
        (snd (SaveArticle ex_fresh 10 (ex_article ''<m1@x>'' None) ['' comp.lang.go ''])))
        (GroupID ex_B) = [1]
   \<and> numbers_in (articles_to_groups
        (snd (SaveArticle
           (snd (SaveArticle
              (snd (SaveArticle ex_fresh 10 (ex_article ''<m1@x>'' None) ['' comp.lang.go '']))
              20 (ex_article ''<m2@x>'' None) ['' comp.lang.go '']))
           30 (ex_article ''<m3@x>'' None) ['' comp.lang.go ''])))
        (GroupID ex_B) = [1, 2, 3]
   \<and> distinct (numbers_in (articles_to_groups
        (snd (SaveArticle ex_fresh 10 (ex_article ''<m1@x>'' None) ['' comp.lang.go ''])))
        (GroupID ex_B))"
proof -
  let ?nm = "'' comp.lang.go ''"
  let ?X1 = "SaveArticle ex_fresh 10 (ex_article ''<m1@x>'' None) [?nm]"
  let ?X2 = "SaveArticle (snd ?X1) 20 (ex_article ''<m2@x>'' None) [?nm]"
  let ?X3 = "SaveArticle (snd ?X2) 30 (ex_article ''<m3@x>'' None) [?nm]"
  note T = SaveArticle_numbering [where s = ex_fresh and now = 10
      and a = "ex_article ''<m1@x>'' None" and names = "[?nm]" and nm = ?nm and g = ex_B
      and gs = "[]" and ?t1.0 = 10 and ?a1.0 = "ex_article ''<m1@x>'' None"
      and ?t2.0 = 20 and ?a2.0 = "ex_article ''<m2@x>'' None"
      and ?t3.0 = 30 and ?a3.0 = "ex_article ''<m3@x>'' None"]
  have pre: "faults ex_fresh = []
      \<and> [x \<leftarrow> groups ex_fresh. GroupName x = TrimSpace ?nm] = [ex_B]
      \<and> numbers_in (articles_to_groups ex_fresh) (GroupID ex_B) = []"
    by code_simp
  have so: "sorted_wrt (<) (numbers_in (articles_to_groups ex_fresh) (GroupID ex_B))"
    by (simp add: ex_fresh_def numbers_in_def)
  from T pre have
    "\<forall>r1 s1 r2 s2 r3 s3.
       ?X1 = (r1, s1) \<and> SaveArticle s1 20 (ex_article ''<m2@x>'' None) [?nm] = (r2, s2)
       \<and> SaveArticle s2 30 (ex_article ''<m3@x>'' None) [?nm] = (r3, s3)
       \<longrightarrow> r1 = Return None \<and> r2 = Return None \<and> r3 = Return None
         \<and> numbers_in (articles_to_groups s1) (GroupID ex_B) = [1]
         \<and> numbers_in (articles_to_groups s2) (GroupID ex_B) = [1, 2]
         \<and> numbers_in (articles_to_groups s3) (GroupID ex_B) = [1, 2, 3]"
    by blast
  from this [rule_format, of "fst ?X1" "snd ?X1" "fst ?X2" "snd ?X2" "fst ?X3" "snd ?X3"]
  have three: "fst ?X1 = Return None
      \<and> numbers_in (articles_to_groups (snd ?X1)) (GroupID ex_B) = [1]
      \<and> numbers_in (articles_to_groups (snd ?X3)) (GroupID ex_B) = [1, 2, 3]"
    by simp
  have ints: "\<forall>m\<in>set (articles_to_groups (snd ?X1)). sql_integer (article_number m)"
    by code_simp
  from T have
    "\<forall>r s'. ?X1 = (r, s')
         \<and> (\<forall>m\<in>set (articles_to_groups s'). sql_integer (article_number m)) \<longrightarrow>
       (\<forall>gid. sorted_wrt (<) (numbers_in (articles_to_groups ex_fresh) gid)
          \<longrightarrow> distinct (numbers_in (articles_to_groups s') gid))"
    by blast
  from this [rule_format, of "fst ?X1" "snd ?X1" "GroupID ex_B"] so ints
  have "distinct (numbers_in (articles_to_groups (snd ?X1)) (GroupID ex_B))"
    by simp
  with three show ?thesis by simp
qed

subsection \<open>Errors of SaveArticle\<close>

lemma Get_error: "Get s rows = (Inl e, s') \<Longrightarrow> e = StoreError \<or> e = ErrNoRows \<and> rows = []"
  by (auto simp: Get_def split: prod.splits bool.splits list.splits)

lemma resolve_groups_NoSuchNewsgroup:
  "resolve_groups s names = (Inl NoSuchNewsgroup, s') \<Longrightarrow>
   \<exists>v\<in>set names. [g \<leftarrow> groups s. GroupName g = TrimSpace v] = []"
proof (induction names arbitrary: s s')
  case Nil
  then show ?case by simp
next
  case (Cons v vs)
  obtain r1 s1 where g: "GetGroup s (TrimSpace v) = (r1, s1)"
    by (metis prod.exhaust)
  then have s1: "groups s1 = groups s"
    unfolding GetGroup_def by (auto dest: Get_frame)
  show ?case
  proof (cases r1)
    case (Inl e)
    with g have "e = StoreError \<or> [g \<leftarrow> groups s. GroupName g = TrimSpace v] = []"
      unfolding GetGroup_def by (auto dest: Get_error)
    moreover have "e \<noteq> StoreError"
      using Cons.prems g Inl by (auto split: if_splits)
    ultimately show ?thesis by simp
  next
    case (Inr grp)
    obtain r2 s2 where rec: "resolve_groups s1 vs = (r2, s2)"
      by (metis prod.exhaust)
    with Cons.prems g Inr have "r2 = Inl NoSuchNewsgroup"
      by (auto split: sum.splits)
    with rec Cons.IH [of s1 s2] s1 show ?thesis by auto
  qed
qed

lemma insert_memberships_error:
  "insert_memberships s aid gids = (Some e, s') \<Longrightarrow> e = StoreError"
proof (induction gids arbitrary: s)
  case Nil
  then show ?case by simp
next
  case (Cons v vs)
  obtain res err s1 where ex: "Exec s (insert_membership aid v) = ((res, err), s1)"
    by (metis prod.exhaust)
  from ex show ?case
  proof (cases rule: Exec_cases)
    case (failed fs)
    with Cons.prems ex show ?thesis by simp
  next
    case (ran fs)
    with Cons.prems ex have "insert_memberships s1 aid vs = (Some e, s')" by simp
    then show ?thesis by (rule Cons.IH)
  qed
qed

lemma insert_attachments_error:
  "insert_attachments s aid atts = (Some e, s') \<Longrightarrow> e = StoreError"
proof (induction atts arbitrary: s)
  case Nil
  then show ?case by simp
next
  case (Cons v vs)
  obtain res err s1 where ex: "Exec s (insert_attachment aid v) = ((res, err), s1)"
    by (metis prod.exhaust)
  from ex show ?case
  proof (cases rule: Exec_cases)
    case (failed fs)
    with Cons.prems ex show ?thesis by simp
  next
    case (ran fs)
    with Cons.prems ex have "insert_attachments s1 aid vs = (Some e, s')" by simp
    then show ?thesis by (rule Cons.IH)
  qed
qed

lemma SaveArticle_NoSuchNewsgroup_only_if:
  assumes "SaveArticle s now a names = (Return (Some NoSuchNewsgroup), s')"
  shows "\<exists>v\<in>set names. [g \<leftarrow> groups s. GroupName g = TrimSpace v] = []"
proof -
  obtain res err s1 where ex: "Exec s (insert_article now a) = ((res, err), s1)"
    by (metis prod.exhaust)
  from ex show ?thesis
  proof (cases rule: Exec_cases)
    case (failed fs)
    with assms ex show ?thesis by (simp add: SaveArticle_def)
  next
    case (ran fs)
    then have g1: "groups s1 = groups s"
      by (simp add: insert_article_def Let_def)
    obtain r2 s2 where rg: "resolve_groups s1 names = (r2, s2)"
      by (metis prod.exhaust)
    show ?thesis
    proof (cases r2)
      case (Inl e)
      with assms ex ran rg have "e = NoSuchNewsgroup"
        by (simp add: SaveArticle_def)
      with rg Inl resolve_groups_NoSuchNewsgroup [of s1 names s2] g1 show ?thesis by simp
    next
      case (Inr groupIDs)
      obtain r3 s3 where im: "insert_memberships s2 (LastInsertId (the res)) groupIDs = (r3, s3)"
        by (metis prod.exhaust)
      obtain r4 s4 where ia: "insert_attachments s3 (LastInsertId (the res)) (Attachments a) = (r4, s4)"
        by (metis prod.exhaust)
      have "r3 = Some NoSuchNewsgroup \<or> r4 = Some NoSuchNewsgroup"
        using assms ex ran rg Inr im ia
        by (auto simp: SaveArticle_def split: option.splits)
      with im ia show ?thesis
        by (auto dest: insert_memberships_error insert_attachments_error)
    qed
  qed
qed

lemma select_where: "[f x. x \<leftarrow> xs, P x] = map f [x \<leftarrow> xs. P x]"
  by (induction xs) simp_all

lemma those_map:
  "those (map f xs) =
     (if \<forall>x\<in>set xs. f x \<noteq> None then Some (map (\<lambda>x. the (f x)) xs) else None)"
  by (induction xs) (auto split: option.splits)

lemma GetNewArticlesSince_quiet:
  assumes "faults s = []"
  shows "GetNewArticlesSince mid s ts =
           (case datetime_unixepoch ts of
              None \<Rightarrow> (Inr [], s)
            | Some t \<Rightarrow>
                if \<forall>x\<in>set (articles s). t < col_created_at x \<longrightarrow> mid (col_header x) \<noteq> None
                then (Inr (map (\<lambda>x. the (mid (col_header x))) [x \<leftarrow> articles s. t < col_created_at x]), s)
                else (Inl ScanError, s))"
proof -
  have sel: "[mid (col_header x). x \<leftarrow> articles s, sql_gt (col_created_at x) (datetime_unixepoch ts)] =
        map (\<lambda>x. mid (col_header x))
          [x \<leftarrow> articles s. sql_gt (col_created_at x) (datetime_unixepoch ts)]"
    by (rule select_where)
  show ?thesis
  proof (cases "datetime_unixepoch ts")
    case None
    then show ?thesis
      using assms unfolding GetNewArticlesSince_def sel
      by (simp add: Select_quiet sql_gt_def)
  next
    case (Some t)
    then show ?thesis
      using assms unfolding GetNewArticlesSince_def sel
      by (simp add: Select_quiet sql_gt_def those_map)
  qed
qed

text \<open>
  Claim C6. \<open>SaveArticle\<close> looks every name up after \<open>TrimSpace\<close>. Whatever the store
  does, it returns "no such newsgroup" only if some trimmed name is the name of no group;
  on a store that does not fail it returns that error if some trimmed name is the name of
  no group, and no error otherwise. The error is not \<^verbatim>\<open>sql.ErrNoRows\<close>. Every
  name is its trimmed form between two runs of white space, and the trimmed form neither
  starts nor ends with white space.
\<close>

theorem SaveArticle_no_such_group:
  "(SaveArticle s now a names = (Return (Some NoSuchNewsgroup), s')
      \<longrightarrow> (\<exists>v\<in>set names. [g \<leftarrow> groups s. GroupName g = TrimSpace v] = []))
   \<and> (faults s = [] \<longrightarrow>
        fst (SaveArticle s now a names) =
          (if \<exists>v\<in>set names. [g \<leftarrow> groups s. GroupName g = TrimSpace v] = []
           then Return (Some NoSuchNewsgroup) else Return None))
   \<and> NoSuchNewsgroup \<noteq> ErrNoRows
   \<and> (\<forall>v\<in>set names.
        (\<exists>ws ws'. set ws \<subseteq> set white_space \<and> set ws' \<subseteq> set white_space
            \<and> v = concat ws @ TrimSpace v @ concat ws')
        \<and> (\<forall>p\<in>set white_space. \<not> prefix p (TrimSpace v) \<and> \<not> suffix p (TrimSpace v)))"
proof (intro conjI impI ballI)
  assume "SaveArticle s now a names = (Return (Some NoSuchNewsgroup), s')"
  then show "\<exists>v\<in>set names. [g \<leftarrow> groups s. GroupName g = TrimSpace v] = []"
    by (rule SaveArticle_NoSuchNewsgroup_only_if)
next
  assume "faults s = []"
  then show "fst (SaveArticle s now a names) =
          (if \<exists>v\<in>set names. [g \<leftarrow> groups s. GroupName g = TrimSpace v] = []
           then Return (Some NoSuchNewsgroup) else Return None)"
    by (simp add: SaveArticle_quiet)
next
  show "NoSuchNewsgroup \<noteq> ErrNoRows" by simp
next
  fix v
  show "\<exists>ws ws'. set ws \<subseteq> set white_space \<and> set ws' \<subseteq> set white_space
            \<and> v = concat ws @ TrimSpace v @ concat ws'"
    using TrimSpace_trims [of v] by blast
next
  fix v p
  assume "p \<in> set white_space"
  then show "\<not> prefix p (TrimSpace v)" "\<not> suffix p (TrimSpace v)"
    using TrimSpace_trims [of v] by blast+
qed

theorem SaveArticle_no_such_group_witness:
  "fst (SaveArticle ex_store 50 (ex_article ''<m5@x>'' None) ['' comp.lang.go '', ''  no.such.group'']) =
     Return (Some NoSuchNewsgroup)
   \<and> fst (SaveArticle ex_store 50 (ex_article ''<m5@x>'' None) ['' comp.lang.go '', ex_padded]) =
     Return None
   \<and> TrimSpace ex_padded = ''alt.test''"
proof -
  have t: "TrimSpace '' comp.lang.go '' = ''comp.lang.go''"
    "TrimSpace ''  no.such.group'' = ''no.such.group''"
    "TrimSpace ex_padded = ''alt.test''"
    by code_simp+
  have g: "groups ex_store = [ex_A, ex_B, ex_C]" by (simp add: ex_store_def)
  note T = SaveArticle_no_such_group [THEN conjunct2, THEN conjunct1, rule_format, OF ex_quiet]
  show ?thesis
    using T [of 50 "ex_article ''<m5@x>'' None" "['' comp.lang.go '', ''  no.such.group'']"]
      T [of 50 "ex_article ''<m5@x>'' None" "['' comp.lang.go '', ex_padded]"]
    by (simp add: t g ex_A_def ex_B_def ex_C_def)
qed

text \<open>
  Claim C9. \<open>SaveArticle\<close> panics exactly when the store fails the insert of the article:
  the nil result is dereferenced before the error is looked at, and the error is not
  returned. The store is left as it was.
\<close>

theorem SaveArticle_panics:
  "SaveArticle s now a names = (Panic, s') \<longleftrightarrow> (\<exists>fs. faults s = True # fs \<and> s' = s\<lparr>faults := fs\<rparr>)"
proof
  assume p: "SaveArticle s now a names = (Panic, s')"
  obtain res err s1 where ex: "Exec s (insert_article now a) = ((res, err), s1)"
    by (metis prod.exhaust)
  have "res = None"
  proof (rule ccontr)
    assume "res \<noteq> None"
    then obtain x where "res = Some x" by auto
    with p ex show False
      by (auto simp: SaveArticle_def Let_def split: prod.splits sum.splits option.splits)
  qed
  with p ex have s': "s' = s1" by (simp add: SaveArticle_def)
  from ex \<open>res = None\<close> s' show "\<exists>fs. faults s = True # fs \<and> s' = s\<lparr>faults := fs\<rparr>"
    by (cases "faults s")
       (auto simp: Exec_def next_fault_def split: prod.splits bool.splits if_splits)
next
  assume "\<exists>fs. faults s = True # fs \<and> s' = s\<lparr>faults := fs\<rparr>"
  then show "SaveArticle s now a names = (Panic, s')"
    by (auto simp: SaveArticle_def Exec_def next_fault_def)
qed

theorem SaveArticle_panics_witness:
  "SaveArticle (ex_store\<lparr>faults := [True]\<rparr>) 50 (ex_article ''<m5@x>'' None) [''comp.lang.go''] =
     (Panic, ex_store)"
  using SaveArticle_panics [of "ex_store\<lparr>faults := [True]\<rparr>" 50 "ex_article ''<m5@x>'' None"
      "[''comp.lang.go'']" ex_store]
  by (simp add: ex_store_def)

text \<open>
  Claim C5, as the code has it. The writes of \<open>SaveArticle\<close> are separate statements and
  nothing written is undone. Whenever the call returns, with an error or without, the
  article row it inserted first is in the table of articles, and the other two tables
  have only grown. If the store, as the call leaves it, does not fail: for a time \<open>ts\<close>
  inside the dates of the store and before the time of the insert,
  \<open>GetNewArticlesSince\<close> lists the message identifier of the article when every article
  created after \<open>ts\<close> has one, and fails with a scan error when one of them has none; for
  a time outside the dates of the store it lists nothing. When a trimmed name is the name
  of no group and the store does not fail, the call fails with "no such newsgroup" and
  the article row is all it has written: no membership and no attachment row.
\<close>

theorem SaveArticle_partial_failure:
  "(SaveArticle s now a names = (Return r, s') \<longrightarrow>
      (\<exists>i. articles s' = articles s @
              [\<lparr>col_id = i, col_header = HeaderRaw a, col_body = Body a,
                col_thread = Thread a, col_created_at = now\<rparr>]
          \<and> ((\<forall>x\<in>set (articles s). col_id x < 2 ^ 63 - 1) \<longrightarrow>
               i = spec_next (map col_id (articles s))))
      \<and> (\<exists>rows. articles_to_groups s' = articles_to_groups s @ rows)
      \<and> (\<exists>atts. attachments_articles_mapping s' = attachments_articles_mapping s @ atts))
   \<and> (SaveArticle s now a names = (Return r, s') \<and> faults s' = []
        \<and> datetime_unixepoch ts = Some ts \<and> ts < now \<longrightarrow>
        (if \<forall>x\<in>set (articles s'). ts < col_created_at x \<longrightarrow> mid (col_header x) \<noteq> None
         then \<exists>ids. GetNewArticlesSince mid s' ts = (Inr ids, s')
                 \<and> the (mid (HeaderRaw a)) \<in> set ids
         else GetNewArticlesSince mid s' ts = (Inl ScanError, s')))
   \<and> (faults s' = [] \<and> datetime_unixepoch ts = None \<longrightarrow>
        GetNewArticlesSince mid s' ts = (Inr [], s'))
   \<and> (faults s = [] \<and> (\<exists>v\<in>set names. [g \<leftarrow> groups s. GroupName g = TrimSpace v] = []) \<longrightarrow>
        (\<exists>i. SaveArticle s now a names =
               (Return (Some NoSuchNewsgroup),
                s\<lparr>articles := articles s @
                    [\<lparr>col_id = i, col_header = HeaderRaw a, col_body = Body a,
                      col_thread = Thread a, col_created_at = now\<rparr>]\<rparr>)
          \<and> ((\<forall>x\<in>set (articles s). col_id x < 2 ^ 63 - 1) \<longrightarrow>
               i = spec_next (map col_id (articles s)))))"
proof (intro conjI impI)
  let ?i = "next_rowid (map col_id (articles s))"
  have below: "(\<forall>x\<in>set (articles s). col_id x < 2 ^ 63 - 1) \<longrightarrow>
      ?i = spec_next (map col_id (articles s))"
    using next_rowid_spec [of "map col_id (articles s)"] by simp
  {
    assume sv: "SaveArticle s now a names = (Return r, s')"
    from SaveArticle_effect [OF sv]
    have "articles s' = articles s @
        [\<lparr>col_id = ?i, col_header = HeaderRaw a, col_body = Body a,
          col_thread = Thread a, col_created_at = now\<rparr>]"
      by simp
    with below
    show "\<exists>i. articles s' = articles s @
              [\<lparr>col_id = i, col_header = HeaderRaw a, col_body = Body a,
                col_thread = Thread a, col_created_at = now\<rparr>]
          \<and> ((\<forall>x\<in>set (articles s). col_id x < 2 ^ 63 - 1) \<longrightarrow>
               i = spec_next (map col_id (articles s)))"
      by blast
    from SaveArticle_effect [OF sv]
    show "\<exists>rows. articles_to_groups s' = articles_to_groups s @ rows" by blast
    from SaveArticle_effect [OF sv]
    show "\<exists>atts. attachments_articles_mapping s' = attachments_articles_mapping s @ atts"
      by blast
  }
  {
    assume "faults s = [] \<and> (\<exists>v\<in>set names. [g \<leftarrow> groups s. GroupName g = TrimSpace v] = [])"
    then have "SaveArticle s now a names =
          (Return (Some NoSuchNewsgroup),
           s\<lparr>articles := articles s @
               [\<lparr>col_id = ?i, col_header = HeaderRaw a, col_body = Body a,
                 col_thread = Thread a, col_created_at = now\<rparr>]\<rparr>)"
      by (simp add: SaveArticle_quiet insert_article_effect)
    with below
    show "\<exists>i. SaveArticle s now a names =
               (Return (Some NoSuchNewsgroup),
                s\<lparr>articles := articles s @
                    [\<lparr>col_id = i, col_header = HeaderRaw a, col_body = Body a,
                      col_thread = Thread a, col_created_at = now\<rparr>]\<rparr>)
          \<and> ((\<forall>x\<in>set (articles s). col_id x < 2 ^ 63 - 1) \<longrightarrow>
               i = spec_next (map col_id (articles s)))"
      by blast
  }
next
  let ?new = "[x \<leftarrow> articles s'. ts < col_created_at x]"
  assume h: "SaveArticle s now a names = (Return r, s') \<and> faults s' = []
        \<and> datetime_unixepoch ts = Some ts \<and> ts < now"
  then have sv: "SaveArticle s now a names = (Return r, s')" by simp
  from SaveArticle_effect [OF sv] obtain row where
    row: "articles s' = articles s @ [row]" "col_created_at row = now"
      "col_header row = HeaderRaw a"
    by simp
  with h have "row \<in> set ?new" by simp
  then have "\<exists>x\<in>set ?new. the (mid (col_header x)) = the (mid (HeaderRaw a))"
    using row by (intro bexI [of _ row]) simp_all
  then have listed: "the (mid (HeaderRaw a)) \<in> set (map (\<lambda>x. the (mid (col_header x))) ?new)"
    by (auto simp: image_iff)
  have run: "GetNewArticlesSince mid s' ts =
      (if \<forall>x\<in>set (articles s'). ts < col_created_at x \<longrightarrow> mid (col_header x) \<noteq> None
       then (Inr (map (\<lambda>x. the (mid (col_header x))) ?new), s')
       else (Inl ScanError, s'))"
    using h GetNewArticlesSince_quiet [of s' mid ts] by simp
  show "if \<forall>x\<in>set (articles s'). ts < col_created_at x \<longrightarrow> mid (col_header x) \<noteq> None
         then \<exists>ids. GetNewArticlesSince mid s' ts = (Inr ids, s')
                 \<and> the (mid (HeaderRaw a)) \<in> set ids
         else GetNewArticlesSince mid s' ts = (Inl ScanError, s')"
  proof (cases "\<forall>x\<in>set (articles s'). ts < col_created_at x \<longrightarrow> mid (col_header x) \<noteq> None")
    case True
    have "GetNewArticlesSince mid s' ts =
        (Inr (map (\<lambda>x. the (mid (col_header x))) ?new), s')"
      unfolding run by (rule if_P [OF True])
    with listed have "\<exists>ids. GetNewArticlesSince mid s' ts = (Inr ids, s')
        \<and> the (mid (HeaderRaw a)) \<in> set ids"
      by blast
    then show ?thesis unfolding if_P [OF True] .
  next
    case False
    have "GetNewArticlesSince mid s' ts = (Inl ScanError, s')"
      unfolding run by (rule if_not_P [OF False])
    then show ?thesis unfolding if_not_P [OF False] .
  qed
next
  assume "faults s' = [] \<and> datetime_unixepoch ts = None"
  then show "GetNewArticlesSince mid s' ts = (Inr [], s')"
    using GetNewArticlesSince_quiet [of s' mid ts] by simp
qed

theorem SaveArticle_partial_failure_witness:
  "SaveArticle ex_store 50 (ex_article ''<m5@x>'' None) [''comp.lang.go'', ''no.such.group'']
     = (Return (Some NoSuchNewsgroup),
        ex_store\<lparr>articles := articles ex_store @
          [\<lparr>col_id = 5, col_header = ''<m5@x>'', col_body = ''text'', col_thread = None,
            col_created_at = 50\<rparr>]\<rparr>)
   \<and> GetNewArticlesSince Some
        (ex_store\<lparr>articles := articles ex_store @
          [\<lparr>col_id = 5, col_header = ''<m5@x>'', col_body = ''text'', col_thread = None,
            col_created_at = 50\<rparr>]\<rparr>) 45 =
       (Inr [''<m5@x>''],
        ex_store\<lparr>articles := articles ex_store @
          [\<lparr>col_id = 5, col_header = ''<m5@x>'', col_body = ''text'', col_thread = None,
            col_created_at = 50\<rparr>]\<rparr>)
   \<and> GetNewArticlesSince (\<lambda>h. if h = ''<m5@x>'' then None else Some h)
        (ex_store\<lparr>articles := articles ex_store @
          [\<lparr>col_id = 5, col_header = ''<m5@x>'', col_body = ''text'', col_thread = None,
            col_created_at = 50\<rparr>]\<rparr>) 45 =
       (Inl ScanError,
        ex_store\<lparr>articles := articles ex_store @
          [\<lparr>col_id = 5, col_header = ''<m5@x>'', col_body = ''text'', col_thread = None,
            col_created_at = 50\<rparr>]\<rparr>)
   \<and> GetNewArticlesSince Some
        (ex_store\<lparr>articles := articles ex_store @
          [\<lparr>col_id = 5, col_header = ''<m5@x>'', col_body = ''text'', col_thread = None,
            col_created_at = 50\<rparr>]\<rparr>) 253402300800 =
       (Inr [],
        ex_store\<lparr>articles := articles ex_store @
          [\<lparr>col_id = 5, col_header = ''<m5@x>'', col_body = ''text'', col_thread = None,
            col_created_at = 50\<rparr>]\<rparr>)"
proof -
  let ?a = "ex_article ''<m5@x>'' None"
  let ?names = "[''comp.lang.go'', ''no.such.group'']"
  let ?s' = "ex_store\<lparr>articles := articles ex_store @
          [\<lparr>col_id = 5, col_header = ''<m5@x>'', col_body = ''text'', col_thread = None,
            col_created_at = 50\<rparr>]\<rparr>"
  let ?nomid = "\<lambda>h. if h = ''<m5@x>'' then None else Some h"
  note T = SaveArticle_partial_failure [where s = ex_store and now = 50 and a = ?a
      and names = ?names and r = "Some NoSuchNewsgroup" and s' = ?s']
  have t: "TrimSpace ''no.such.group'' = ''no.such.group''" by code_simp
  have un: "\<exists>v\<in>set ?names. [g \<leftarrow> groups ex_store. GroupName g = TrimSpace v] = []"
    by (simp add: t ex_store_def ex_A_def ex_B_def ex_C_def)
  have below: "\<forall>x\<in>set (articles ex_store). col_id x < 2 ^ 63 - 1"
    by (simp add: ex_store_def)
  have id: "spec_next (map col_id (articles ex_store)) = 5"
    by (simp add: ex_store_def spec_next_def)
  have q': "faults ?s' = []" using ex_quiet by simp
  have in_range: "datetime_unixepoch 45 = Some 45" "datetime_unixepoch 253402300800 = None"
    by (simp_all add: datetime_unixepoch_def)
  from T [where ts = 45 and mid = Some, THEN conjunct2, THEN conjunct2, THEN conjunct2,
      rule_format, OF conjI [OF ex_quiet un]]
  obtain i where i: "SaveArticle ex_store 50 ?a ?names =
      (Return (Some NoSuchNewsgroup),
       ex_store\<lparr>articles := articles ex_store @
          [\<lparr>col_id = i, col_header = HeaderRaw ?a, col_body = Body ?a,
            col_thread = Thread ?a, col_created_at = 50\<rparr>]\<rparr>)"
    and "(\<forall>x\<in>set (articles ex_store). col_id x < 2 ^ 63 - 1) \<longrightarrow>
      i = spec_next (map col_id (articles ex_store))"
    by blast
  with below id have "i = 5" by simp
  with i have sv: "SaveArticle ex_store 50 ?a ?names = (Return (Some NoSuchNewsgroup), ?s')"
    by (simp add: ex_article_def)
  have pre: "SaveArticle ex_store 50 ?a ?names = (Return (Some NoSuchNewsgroup), ?s')
      \<and> faults ?s' = [] \<and> datetime_unixepoch 45 = Some 45 \<and> (45::int) < 50"
    using sv q' in_range by simp
  have all: "\<forall>x\<in>set (articles ?s'). 45 < col_created_at x \<longrightarrow> Some (col_header x) \<noteq> None"
    by simp
  from T [where ts = 45 and mid = Some, THEN conjunct2, THEN conjunct1, rule_format, OF pre] all
  have "\<exists>ids. GetNewArticlesSince Some ?s' 45 = (Inr ids, ?s')"
    by auto
  then have "snd (GetNewArticlesSince Some ?s' 45) = ?s'" by auto
  moreover have "fst (GetNewArticlesSince Some ?s' 45) = Inr [''<m5@x>'']"
    by code_simp
  ultimately have listed: "GetNewArticlesSince Some ?s' 45 = (Inr [''<m5@x>''], ?s')"
    by (simp add: prod_eq_iff)
  have some: "\<not> (\<forall>x\<in>set (articles ?s'). 45 < col_created_at x \<longrightarrow> ?nomid (col_header x) \<noteq> None)"
    by simp
  from T [where ts = 45 and mid = ?nomid, THEN conjunct2, THEN conjunct1, rule_format, OF pre] some
  have failed: "GetNewArticlesSince ?nomid ?s' 45 = (Inl ScanError, ?s')"
    by simp
  from T [where ts = 253402300800 and mid = Some, THEN conjunct2, THEN conjunct2, THEN conjunct1,
      rule_format, OF conjI [OF q' in_range(2)]]
  have none: "GetNewArticlesSince Some ?s' 253402300800 = (Inr [], ?s')" .
  from sv listed failed none show ?thesis by simp
qed

text \<open>
  Claim C5 as stated fails. An article saved into \<^verbatim>\<open>comp.lang.go\<close> and an unknown
  group: the call fails with "no such newsgroup", and the article is listed by
  \<open>GetNewArticlesSince\<close> afterwards. An article saved into \<^verbatim>\<open>alt.test\<close> and
  \<^verbatim>\<open>comp.lang.go\<close> on a store that fails the fifth statement (the second membership
  insert): the call fails, and the membership in \<^verbatim>\<open>alt.test\<close> (number 2) stays,
  with none in \<^verbatim>\<open>comp.lang.go\<close>.
\<close>

theorem SaveArticle_not_atomic:
  "fst (SaveArticle ex_store 50 (ex_article ''<m5@x>'' None) [''comp.lang.go'', ''no.such.group''])
     = Return (Some NoSuchNewsgroup)
   \<and> fst (GetNewArticlesSince Some
        (snd (SaveArticle ex_store 50 (ex_article ''<m5@x>'' None)
               [''comp.lang.go'', ''no.such.group''])) 45)
     = Inr [''<m5@x>'']
   \<and> fst (SaveArticle (ex_store\<lparr>faults := [False, False, False, False, True]\<rparr>) 50
        (ex_article ''<m5@x>'' None) [''alt.test'', ''comp.lang.go''])
     = Return (Some StoreError)
   \<and> numbers_in (articles_to_groups
        (snd (SaveArticle (ex_store\<lparr>faults := [False, False, False, False, True]\<rparr>) 50
               (ex_article ''<m5@x>'' None) [''alt.test'', ''comp.lang.go''])))
        (GroupID ex_A) = [1, 2]
   \<and> numbers_in (articles_to_groups
        (snd (SaveArticle (ex_store\<lparr>faults := [False, False, False, False, True]\<rparr>) 50
               (ex_article ''<m5@x>'' None) [''alt.test'', ''comp.lang.go''])))
        (GroupID ex_B) = [1, 2, 3, 4]"
  by code_simp

section \<open>Watermarks and counts\<close>

lemma high_quiet:
  "faults s = [] \<Longrightarrow>
   GetGroupHighWaterMark s g =
     (Inr (if numbers_in (articles_to_groups s) (GroupID g) = [] then 0
           else Max (set (numbers_in (articles_to_groups s) (GroupID g)))), s)"
  by (simp add: GetGroupHighWaterMark_def Get_quiet coalesce_def sql_max_Max)

lemma low_quiet:
  "faults s = [] \<Longrightarrow>
   GetGroupLowWaterMark s g =
     (Inr (if numbers_in (articles_to_groups s) (GroupID g) = [] then 0
           else Min (set (numbers_in (articles_to_groups s) (GroupID g)))), s)"
  by (simp add: GetGroupLowWaterMark_def Get_quiet coalesce_def sql_min_Min)

lemma count_quiet:
  "faults s = [] \<Longrightarrow>
   GetArticlesCount s g = (Inr (int (length (numbers_in (articles_to_groups s) (GroupID g)))), s)"
  by (simp add: GetArticlesCount_def Get_quiet length_numbers_in)

text \<open>
  Claim C4. On a store that does not fail, \<open>GetGroupHighWaterMark\<close> returns the greatest
  and \<open>GetGroupLowWaterMark\<close> the least article number of the group, and both return 0,
  not an error, for a group without articles; \<open>GetArticlesCount\<close> returns the number of
  memberships. Hence the low watermark is at most the high one when the count is
  positive, and both are 0 when the count is 0.
\<close>

theorem watermarks_and_count:
  assumes "faults s = []"
  shows "GetGroupHighWaterMark s g =
           (Inr (if numbers_in (articles_to_groups s) (GroupID g) = [] then 0
                 else Max (set (numbers_in (articles_to_groups s) (GroupID g)))), s)
       \<and> GetGroupLowWaterMark s g =
           (Inr (if numbers_in (articles_to_groups s) (GroupID g) = [] then 0
                 else Min (set (numbers_in (articles_to_groups s) (GroupID g)))), s)
       \<and> GetArticlesCount s g =
           (Inr (int (length (numbers_in (articles_to_groups s) (GroupID g)))), s)
       \<and> (\<forall>c lo hi. GetArticlesCount s g = (Inr c, s)
             \<and> GetGroupLowWaterMark s g = (Inr lo, s)
             \<and> GetGroupHighWaterMark s g = (Inr hi, s)
             \<longrightarrow> (0 < c \<longrightarrow> lo \<le> hi) \<and> (c = 0 \<longrightarrow> lo = 0 \<and> hi = 0))"
proof -
  let ?ns = "numbers_in (articles_to_groups s) (GroupID g)"
  have "?ns \<noteq> [] \<Longrightarrow> Min (set ?ns) \<le> Max (set ?ns)"
    by simp
  then show ?thesis
    using assms by (auto simp add: high_quiet low_quiet count_quiet)
qed

theorem watermarks_and_count_witness:
  "GetGroupHighWaterMark ex_store ex_B = (Inr 4, ex_store)
   \<and> GetGroupLowWaterMark ex_store ex_B = (Inr 1, ex_store)
   \<and> GetArticlesCount ex_store ex_B = (Inr 4, ex_store)
   \<and> GetGroupHighWaterMark ex_store ex_C = (Inr 0, ex_store)
   \<and> GetGroupLowWaterMark ex_store ex_C = (Inr 0, ex_store)
   \<and> GetArticlesCount ex_store ex_C = (Inr 0, ex_store)"
proof -
  have B: "GetGroupHighWaterMark ex_store ex_B = (Inr 4, ex_store)
     \<and> GetGroupLowWaterMark ex_store ex_B = (Inr 1, ex_store)
     \<and> GetArticlesCount ex_store ex_B = (Inr 4, ex_store)"
    using watermarks_and_count [OF ex_quiet, of ex_B] unfolding ex_numbers_B by simp
  have C: "GetGroupHighWaterMark ex_store ex_C = (Inr 0, ex_store)
     \<and> GetGroupLowWaterMark ex_store ex_C = (Inr 0, ex_store)
     \<and> GetArticlesCount ex_store ex_C = (Inr 0, ex_store)"
    using watermarks_and_count [OF ex_quiet, of ex_C] unfolding ex_numbers_C by simp
  from B C show ?thesis by simp
qed

section \<open>Reading article numbers\<close>

lemma numbers_where:
  "[article_number m. m \<leftarrow> tbl, group_id m = gid \<and> P (article_number m)] =
   [n \<leftarrow> numbers_in tbl gid. P n]"
  by (induction tbl) (simp_all add: numbers_in_def)

lemma GetArticleNumbers_quiet:
  assumes "faults s = []"
  shows "GetArticleNumbers s g low high =
    (Inr (if high = 0 \<and> low = 0 then numbers_in (articles_to_groups s) (GroupID g)
          else if low = - 1 \<and> high \<noteq> 0 then [n \<leftarrow> numbers_in (articles_to_groups s) (GroupID g). n = high]
          else if low \<noteq> 0 \<and> high = - 1 then [n \<leftarrow> numbers_in (articles_to_groups s) (GroupID g). low < n]
          else [n \<leftarrow> numbers_in (articles_to_groups s) (GroupID g). low < n \<and> n < high]), s)"
proof -
  have all: "[article_number m. m \<leftarrow> articles_to_groups s, group_id m = GroupID g] =
      numbers_in (articles_to_groups s) (GroupID g)"
    by (simp add: numbers_in_def)
  have "\<not> (low = - 1 \<and> high = - 1 \<and> \<not> (low = - 1 \<and> high \<noteq> 0))" by auto
  then show ?thesis
    using assms numbers_where [where tbl = "articles_to_groups s" and gid = "GroupID g" and P = "\<lambda>n. n = high"]
      numbers_where [where tbl = "articles_to_groups s" and gid = "GroupID g" and P = "\<lambda>n. low < n"]
      numbers_where [where tbl = "articles_to_groups s" and gid = "GroupID g"
        and P = "\<lambda>n. low < n \<and> n < high"]
    by (auto simp: GetArticleNumbers_def Select_quiet all)
qed

text \<open>
  Claim C2. On a store that does not fail, \<open>GetArticleNumbers\<close> follows the table of
  sentinels: \<open>(0, 0)\<close> returns all numbers of the group; \<open>(-1, h)\<close> with \<open>h \<noteq> 0\<close>
  returns the numbers equal to \<open>h\<close>, so the set \<open>{h}\<close> if \<open>h\<close> is a number of the group
  and nothing otherwise; \<open>(l, -1)\<close> with \<open>l\<close> neither 0 nor -1 returns the numbers
  greater than \<open>l\<close>; \<open>(l, h)\<close> with both neither 0 nor -1 returns the numbers \<open>n\<close> with
  \<open>l < n < h\<close>. For \<open>(-1, -1)\<close> the code runs the query of the second row (its own
  branch for \<open>(-1, -1)\<close> comes later and is never reached), which returns nothing as
  long as -1 is not a number of the group; the numbers \<open>SaveArticle\<close> gives start at 1
  (\<open>SaveArticle_numbers_positive\<close>).
\<close>

theorem GetArticleNumbers_table:
  assumes "faults s = []"
  shows "GetArticleNumbers s g 0 0 = (Inr (numbers_in (articles_to_groups s) (GroupID g)), s)
    \<and> (h \<noteq> 0 \<longrightarrow>
         (\<exists>ns. GetArticleNumbers s g (- 1) h = (Inr ns, s)
              \<and> ns = [n \<leftarrow> numbers_in (articles_to_groups s) (GroupID g). n = h]
              \<and> set ns = (if h \<in> set (numbers_in (articles_to_groups s) (GroupID g)) then {h} else {})))
    \<and> (l \<noteq> 0 \<and> l \<noteq> - 1 \<longrightarrow>
         GetArticleNumbers s g l (- 1) =
           (Inr [n \<leftarrow> numbers_in (articles_to_groups s) (GroupID g). l < n], s))
    \<and> (- 1 \<notin> set (numbers_in (articles_to_groups s) (GroupID g)) \<longrightarrow>
         GetArticleNumbers s g (- 1) (- 1) = (Inr [], s))
    \<and> (l \<noteq> 0 \<and> l \<noteq> - 1 \<and> h \<noteq> 0 \<and> h \<noteq> - 1 \<longrightarrow>
         GetArticleNumbers s g l h =
           (Inr [n \<leftarrow> numbers_in (articles_to_groups s) (GroupID g). l < n \<and> n < h], s))"
proof (intro conjI impI)
  show "GetArticleNumbers s g 0 0 = (Inr (numbers_in (articles_to_groups s) (GroupID g)), s)"
    using assms by (simp add: GetArticleNumbers_quiet)
next
  assume "h \<noteq> 0"
  then have "GetArticleNumbers s g (- 1) h =
      (Inr [n \<leftarrow> numbers_in (articles_to_groups s) (GroupID g). n = h], s)"
    using assms by (simp add: GetArticleNumbers_quiet)
  moreover have "set [n \<leftarrow> numbers_in (articles_to_groups s) (GroupID g). n = h] =
      (if h \<in> set (numbers_in (articles_to_groups s) (GroupID g)) then {h} else {})"
    by auto
  ultimately show "\<exists>ns. GetArticleNumbers s g (- 1) h = (Inr ns, s)
              \<and> ns = [n \<leftarrow> numbers_in (articles_to_groups s) (GroupID g). n = h]
              \<and> set ns = (if h \<in> set (numbers_in (articles_to_groups s) (GroupID g)) then {h} else {})"
    by blast
next
  assume "l \<noteq> 0 \<and> l \<noteq> - 1"
  then show "GetArticleNumbers s g l (- 1) =
           (Inr [n \<leftarrow> numbers_in (articles_to_groups s) (GroupID g). l < n], s)"
    using assms by (simp add: GetArticleNumbers_quiet)
next
  assume "- 1 \<notin> set (numbers_in (articles_to_groups s) (GroupID g))"
  then have "[n \<leftarrow> numbers_in (articles_to_groups s) (GroupID g). n = - 1] = []"
    by (auto simp: filter_empty_conv)
  then show "GetArticleNumbers s g (- 1) (- 1) = (Inr [], s)"
    using assms by (simp add: GetArticleNumbers_quiet)
next
  assume "l \<noteq> 0 \<and> l \<noteq> - 1 \<and> h \<noteq> 0 \<and> h \<noteq> - 1"
  then show "GetArticleNumbers s g l h =
           (Inr [n \<leftarrow> numbers_in (articles_to_groups s) (GroupID g). l < n \<and> n < h], s)"
    using assms by (simp add: GetArticleNumbers_quiet)
qed

theorem GetArticleNumbers_table_witness:
  "GetArticleNumbers ex_store ex_B 0 0 = (Inr [1, 2, 3, 4], ex_store)
   \<and> GetArticleNumbers ex_store ex_B (- 1) 3 = (Inr [3], ex_store)
   \<and> GetArticleNumbers ex_store ex_B (- 1) 9 = (Inr [], ex_store)
   \<and> GetArticleNumbers ex_store ex_B 2 (- 1) = (Inr [3, 4], ex_store)
   \<and> GetArticleNumbers ex_store ex_B (- 1) (- 1) = (Inr [], ex_store)
   \<and> GetArticleNumbers ex_store ex_B 1 4 = (Inr [2, 3], ex_store)"
proof -
  note T = GetArticleNumbers_table [OF ex_quiet, of ex_B]
  have a: "GetArticleNumbers ex_store ex_B 0 0 = (Inr [1, 2, 3, 4], ex_store)"
    using T [of 3 2] by (simp add: ex_numbers_B)
  have b: "GetArticleNumbers ex_store ex_B (- 1) 3 = (Inr [3], ex_store)"
    using T [of 3 2, THEN conjunct2, THEN conjunct1] by (simp add: ex_numbers_B)
  have c: "GetArticleNumbers ex_store ex_B (- 1) 9 = (Inr [], ex_store)"
    using T [of 9 2, THEN conjunct2, THEN conjunct1] by (simp add: ex_numbers_B)
  have d: "GetArticleNumbers ex_store ex_B 2 (- 1) = (Inr [3, 4], ex_store)"
    using T [of 3 2, THEN conjunct2, THEN conjunct2, THEN conjunct1] by (simp add: ex_numbers_B)
  have e: "GetArticleNumbers ex_store ex_B (- 1) (- 1) = (Inr [], ex_store)"
    using T [of 3 2, THEN conjunct2, THEN conjunct2, THEN conjunct2, THEN conjunct1]
    by (simp add: ex_numbers_B)
  have f: "GetArticleNumbers ex_store ex_B 1 4 = (Inr [2, 3], ex_store)"
    using T [of 4 1, THEN conjunct2, THEN conjunct2, THEN conjunct2, THEN conjunct2]
    by (simp add: ex_numbers_B)
  from a b c d e f show ?thesis by simp
qed

section \<open>Threads\<close>

lemma headers_of_numbered:
  "[col_header x. (x, m) \<leftarrow> js, group_id m = gid \<and> article_number m = r] =
   map col_header [x. (x, m) \<leftarrow> [(x, m) \<leftarrow> js. group_id m = gid], article_number m = r]"
  by (induction js) auto

lemma root_message_id_numbered:
  "root_message_id mid s g r = (case numbered s g r of [] \<Rightarrow> None | x # _ \<Rightarrow> mid (col_header x))"
proof -
  have eq: "[col_header x. (x, m) \<leftarrow> joined s, group_id m = GroupID g \<and> article_number m = r] =
        map col_header (numbered s g r)"
    unfolding numbered_def in_group_def by (rule headers_of_numbered)
  show ?thesis
    unfolding root_message_id_def eq by (cases "numbered s g r") simp_all
qed

lemma sql_eq_NULL: "sql_eq x None = False"
  by (cases x) (simp_all add: sql_eq_def)

lemma sql_eq_iff: "sql_eq x y \<longleftrightarrow> x \<noteq> None \<and> x = y"
  by (cases x; cases y) (simp_all add: sql_eq_def)

lemma where_in_group:
  "[(x, m) \<leftarrow> joined s. group_id m = GroupID g \<and> P x m] = [(x, m) \<leftarrow> in_group s g. P x m]"
  by (auto simp: in_group_def intro: filter_cong)


text \<open>
  Claim C8. On a store that does not fail, \<open>GetThread\<close> with a root number that no
  article of the group carries returns the empty list. When \<open>root\<close> is the article that
  carries the number, it returns the numbers of the articles of the group whose thread
  field is the message identifier of \<open>root\<close>, in ascending order of creation time; with
  no such article that is the empty list again, the same value as for a missing root.
\<close>

theorem GetThread_replies:
  assumes "faults s = []"
  shows "(numbered s g r = [] \<longrightarrow> GetThread mid s g r = (Inr [], s))
    \<and> (set (numbered s g r) = {root} \<longrightarrow>
         (\<exists>rows. GetThread mid s g r = (Inr (map (article_number \<circ> snd) rows), s)
            \<and> sorted (map (col_created_at \<circ> fst) rows)
            \<and> mset rows = mset [(x, m) \<leftarrow> in_group s g.
                                   col_thread x \<noteq> None \<and> col_thread x = mid (col_header root)])
       \<and> ([(x, m) \<leftarrow> in_group s g. col_thread x \<noteq> None \<and> col_thread x = mid (col_header root)] = []
            \<longrightarrow> GetThread mid s g r = (Inr [], s)))"
proof (intro conjI impI)
  assume "numbered s g r = []"
  then have "root_message_id mid s g r = None"
    by (simp add: root_message_id_numbered)
  then show "GetThread mid s g r = (Inr [], s)"
    using assms by (simp add: GetThread_def Select_quiet sql_eq_NULL)
next
  let ?replies = "[(x, m) \<leftarrow> in_group s g. col_thread x \<noteq> None \<and> col_thread x = mid (col_header root)]"
  assume one: "set (numbered s g r) = {root}"
  then obtain rest where "numbered s g r = root # rest"
    by (cases "numbered s g r") auto
  then have "root_message_id mid s g r = mid (col_header root)"
    by (simp add: root_message_id_numbered)
  then have run: "GetThread mid s g r =
      (Inr (map (article_number \<circ> snd) (sort_key (col_created_at \<circ> fst) ?replies)), s)"
    using assms where_in_group [where s = s and g = g
        and P = "\<lambda>x m. col_thread x \<noteq> None \<and> col_thread x = mid (col_header root)"]
    by (simp add: GetThread_def Select_quiet sql_eq_iff)
  show "\<exists>rows. GetThread mid s g r = (Inr (map (article_number \<circ> snd) rows), s)
            \<and> sorted (map (col_created_at \<circ> fst) rows)
            \<and> mset rows = mset ?replies"
    using run by (intro exI [of _ "sort_key (col_created_at \<circ> fst) ?replies"]) simp
  show "GetThread mid s g r = (Inr [], s)" if "?replies = []"
    using run that by simp
qed

theorem GetThread_replies_witness:
  "GetThread Some ex_store ex_B 9 = (Inr [], ex_store)
   \<and> GetThread Some ex_store ex_B 2 = (Inr [], ex_store)
   \<and> GetThread Some ex_store ex_B 1 = (Inr [3, 4], ex_store)"
proof -
  note T = GetThread_replies [OF ex_quiet, where g = ex_B and mid = Some]
  have "numbered ex_store ex_B 9 = []" by code_simp
  with T [of 9] have a: "GetThread Some ex_store ex_B 9 = (Inr [], ex_store)" by simp
  have r2: "set (numbered ex_store ex_B 2) = {ex_row 2 ''<m2@x>'' None 20}" by code_simp
  have "[(x, m) \<leftarrow> in_group ex_store ex_B. col_thread x \<noteq> None
          \<and> col_thread x = Some (col_header (ex_row 2 ''<m2@x>'' None 20))] = []"
    by code_simp
  with T [of 2 "ex_row 2 ''<m2@x>'' None 20"] r2
  have b: "GetThread Some ex_store ex_B 2 = (Inr [], ex_store)" by simp
  have r1: "set (numbered ex_store ex_B 1) = {ex_row 1 ''<m1@x>'' None 10}" by code_simp
  from T [of 1 "ex_row 1 ''<m1@x>'' None 10", THEN conjunct2, rule_format, OF r1, THEN conjunct1]
  have "snd (GetThread Some ex_store ex_B 1) = ex_store"
    by (elim exE conjE) simp
  moreover have "fst (GetThread Some ex_store ex_B 1) = Inr [3, 4]" by code_simp
  ultimately have c: "GetThread Some ex_store ex_B 1 = (Inr [3, 4], ex_store)"
    by (simp add: prod_eq_iff)
  from a b c show ?thesis by simp
qed

section \<open>The neighbours of an article\<close>














section \<open>The number filled into a returned article\<close>






section \<open>Articles by range\<close>

text \<open>
  Claim C3, at an input where the code departs from it. The example store is what four
  calls of \<open>SaveArticle\<close> leave (\<open>ex_store_saved\<close>); article 2 has the number 1 in
  \<^verbatim>\<open>alt.test\<close> and the number 2 in \<^verbatim>\<open>comp.lang.go\<close>. The range 2 to 3 of
  \<^verbatim>\<open>comp.lang.go\<close> returns the articles 2 and 3 in this order, the closed interval,
  but article 2 carries the number 1; the range 1 to 1 of \<^verbatim>\<open>alt.test\<close> returns it
  with the number 1 as well. \<open>GetArticleByNumber\<close> returns the same article with the
  number 2. For comparison, \<open>GetArticleNumbers\<close> excludes both bounds.
\<close>

theorem GetArticlesByRange_number_of_another_group:
  "GetArticlesByRange Some ex_store ex_B 2 3
      = (Inr [ex_read 2 ''<m2@x>'' None 20 1, ex_read 3 ''<m3@x>'' (Some ''<m1@x>'') 30 3], ex_store)
   \<and> GetArticlesByRange Some ex_store ex_A 1 1 = (Inr [ex_read 2 ''<m2@x>'' None 20 1], ex_store)
   \<and> GetArticleByNumber Some ex_store ex_B 2 = (Inr (ex_read 2 ''<m2@x>'' None 20 2), ex_store)
   \<and> GetArticleNumbers ex_store ex_B 2 (- 1) = (Inr [3, 4], ex_store)
   \<and> GetArticleNumbers ex_store ex_B 1 3 = (Inr [2], ex_store)"
  by code_simp

end
